theory Spec2Isabelle
  imports Main "HOL-Library.Sublist"
begin

section \<open>Strings as the source uses them\<close>

text \<open>
  Model identifiers, credential identifiers and signatures are JavaScript strings. They are
  modelled as \<open>string\<close> (a list of 8-bit characters), which covers the ASCII identifiers the
  proxy handles. A JavaScript string is falsy exactly when it is empty, so a guard
  \<^verbatim>\<open>if (!s)\<close> on a string becomes \<open>s = []\<close>.
\<close>

definition toLowerChar :: "char \<Rightarrow> char" where
  \<comment> \<open>\<^verbatim>\<open>String.prototype.toLowerCase\<close> on one ASCII character.\<close>
  "toLowerChar c =
     (case map_of (zip ''ABCDEFGHIJKLMNOPQRSTUVWXYZ'' ''abcdefghijklmnopqrstuvwxyz'') c of
        Some d \<Rightarrow> d
      | None \<Rightarrow> c)"

definition toLowerCase :: "string \<Rightarrow> string" where
  "toLowerCase s = map toLowerChar s"

fun str_includes :: "string \<Rightarrow> string \<Rightarrow> bool" where
  \<comment> \<open>\<^verbatim>\<open>s.includes(n)\<close>: \<open>n\<close> occurs in \<open>s\<close> as a contiguous substring.\<close>
  "str_includes [] n = (n = [])"
| "str_includes (c # cs) n = (prefix n (c # cs) \<or> str_includes cs n)"

definition contains_ci :: "string \<Rightarrow> string \<Rightarrow> bool" where
  \<comment> \<open>The specification's notion: some contiguous part of \<open>s\<close> equals \<open>n\<close> up to letter case.\<close>
  "contains_ci s n = (\<exists>pre w suf. s = pre @ w @ suf \<and> map toLowerChar w = map toLowerChar n)"

section \<open>Cooldown manager (src/auth/token\_cooldown\_manager.js)\<close>



definition getGroupKey :: "string \<Rightarrow> string" where
  "getGroupKey modelId =
     (if modelId = [] then ''other''
      else let lower = toLowerCase modelId in
        if str_includes lower ''claude'' then ''claude''
        else if str_includes lower ''gemini-3-pro-image'' then ''banana''
        else if str_includes lower ''gemini'' \<or> str_includes lower ''publishers/google/'' then ''gemini''
        else ''other'')"




section \<open>Signature cache (utils signature cache, file storage version)\<close>

text \<open>
  One JSON file per model key under \<^verbatim>\<open>data/signature-cache/\<close>. The directory is a map from
  model key to file content. A file either cannot be used as a document (\<^verbatim>\<open>JSON.parse\<close>
  throws, or yields \<^verbatim>\<open>null\<close>), or is a document whose \<^verbatim>\<open>signatures\<close> field is an array of
  entries or something else (\<open>None\<close>). Every file-system call can fail: \<open>cache_io\<close> is the
  schedule of those outcomes, one flag per call that reaches the disk, \<open>True\<close> meaning
  that the call throws; an exhausted schedule means success.
  The configuration object comes from \<^verbatim>\<open>config/config.js\<close>, outside the files verified
  here; the four flags it provides are a parameter.
\<close>

record entry =
  signature :: string
  content :: string

datatype cache_file =
    Unparseable
  | CacheDoc (doc_model: string) (doc_signatures: "entry list option") (doc_lastModified: nat)

record sig_store =
  cache_files :: "string \<rightharpoonup> cache_file"
  cache_io :: "bool list"

record config =
  cacheAllSignatures :: bool
  cacheToolSignatures :: bool
  cacheImageSignatures :: bool
  cacheThinking :: bool

record options =
  opt_hasTools :: "bool option"
  opt_isImageModel :: "bool option"

definition MAX_SIGNATURES_PER_MODEL :: nat where
  "MAX_SIGNATURES_PER_MODEL = 3"

definition io_fails :: "bool list \<Rightarrow> bool \<times> bool list" where
  \<comment> \<open>The outcome of the next file-system call and the rest of the schedule.\<close>
  "io_fails sched = (case sched of [] \<Rightarrow> (False, []) | b # bs \<Rightarrow> (b, bs))"

definition unsafeFileChars :: "char list" where
  \<comment> \<open>The character class \<^verbatim>\<open>[<>:"/\|?*]\<close>.\<close>
  "unsafeFileChars =
     [CHR ''<'', CHR ''>'', CHR '':'', CHR 0x22, CHR ''/'', CHR 0x5C, CHR ''|'', CHR ''?'', CHR ''*'']"

definition sanitizeChar :: "char \<Rightarrow> char" where
  "sanitizeChar c = (if c \<in> set unsafeFileChars then CHR ''_'' else c)"

definition resolutionSuffixes :: "string list" where
  "resolutionSuffixes = [''-1k'', ''-2k'', ''-4k'', ''-8k'']"

definition stripResolutionSuffix :: "string \<Rightarrow> string" where
  \<comment> \<open>\<^verbatim>\<open>raw.replace(/-(?:1k|2k|4k|8k)$/i, '')\<close>: one suffix, at the very end, any letter case.\<close>
  "stripResolutionSuffix raw =
     (let n = length raw in
      if 3 \<le> n \<and> toLowerCase (drop (n - 3) raw) \<in> set resolutionSuffixes
      then take (n - 3) raw else raw)"

definition makeModelKey :: "string \<Rightarrow> string option" where
  \<comment> \<open>\<open>None\<close> is the \<^verbatim>\<open>null\<close> returned for a falsy model.\<close>
  "makeModelKey model =
     (if model = [] then None
      else Some (map sanitizeChar (stripResolutionSuffix model)))"

definition falsyKey :: "string option \<Rightarrow> bool" where
  \<comment> \<open>\<^verbatim>\<open>!modelKey\<close>: \<^verbatim>\<open>null\<close> or the empty string.\<close>
  "falsyKey k = (case k of None \<Rightarrow> True | Some s \<Rightarrow> s = [])"

definition readModelCache :: "string option \<Rightarrow> sig_store \<Rightarrow> entry list \<times> sig_store" where
  "readModelCache modelKey st =
     (if falsyKey modelKey then ([], st)
      else case cache_files st (the modelKey) of
        None \<Rightarrow> ([], st)
      | Some f \<Rightarrow>
          (case io_fails (cache_io st) of
             (True, rest) \<Rightarrow> ([], st\<lparr>cache_io := rest\<rparr>)
           | (False, rest) \<Rightarrow>
               (case f of
                  Unparseable \<Rightarrow> ([], st\<lparr>cache_io := rest\<rparr>)
                | CacheDoc m sigs t \<Rightarrow>
                    (case sigs of
                       None \<Rightarrow> ([], st\<lparr>cache_io := rest\<rparr>)
                     | Some xs \<Rightarrow> (xs, st\<lparr>cache_io := rest\<rparr>)))))"

definition writeModelCache :: "string option \<Rightarrow> entry list \<Rightarrow> nat \<Rightarrow> sig_store \<Rightarrow> sig_store" where
  \<comment> \<open>A failing \<^verbatim>\<open>mkdirSync\<close> or \<^verbatim>\<open>writeFileSync\<close> is caught and logged: the file stays as it was.\<close>
  "writeModelCache modelKey signatures now st =
     (if falsyKey modelKey then st
      else case io_fails (cache_io st) of
        (True, rest) \<Rightarrow> st\<lparr>cache_io := rest\<rparr>
      | (False, rest) \<Rightarrow>
          st\<lparr>cache_files := (cache_files st)(the modelKey \<mapsto>
                 CacheDoc (the modelKey) (Some signatures) now),
             cache_io := rest\<rparr>)"

definition getLatestEntry :: "string option \<Rightarrow> sig_store \<Rightarrow> entry option \<times> sig_store" where
  "getLatestEntry modelKey st =
     (if falsyKey modelKey then (None, st)
      else case readModelCache modelKey st of
        (signatures, st1) \<Rightarrow>
          if length signatures = 0 then (None, st1)
          else (Some (signatures ! (length signatures - 1)), st1))"

function trimToCapacity :: "entry list \<Rightarrow> entry list" where
  \<comment> \<open>\<^verbatim>\<open>while (signatures.length > MAX_SIGNATURES_PER_MODEL) signatures.shift()\<close>\<close>
  "trimToCapacity signatures =
     (if length signatures > MAX_SIGNATURES_PER_MODEL then trimToCapacity (tl signatures)
      else signatures)"
  by pat_completeness auto
termination
  by (relation "measure length") (auto simp: MAX_SIGNATURES_PER_MODEL_def)

declare trimToCapacity.simps [simp del]

definition pushEntry :: "string option \<Rightarrow> entry \<Rightarrow> nat \<Rightarrow> sig_store \<Rightarrow> sig_store" where
  "pushEntry modelKey e now st =
     (if falsyKey modelKey \<or> signature e = [] then st
      else case readModelCache modelKey st of
        (signatures, st1) \<Rightarrow>
          if length signatures > 0 \<and>
             signature (signatures ! (length signatures - 1)) = signature e
          then st1
          else writeModelCache modelKey (trimToCapacity (signatures @ [e])) now st1)"

definition shouldCacheSignature :: "config \<Rightarrow> bool \<Rightarrow> bool \<Rightarrow> bool" where
  "shouldCacheSignature cfg hasTools isImage =
     (if cacheAllSignatures cfg then True
      else if cacheToolSignatures cfg \<and> hasTools then True
      else if cacheImageSignatures cfg \<and> isImage then True
      else False)"

definition isImageModel :: "string \<Rightarrow> bool" where
  "isImageModel model =
     (if model = [] then False else str_includes (toLowerCase model) ''image'')"

definition processThinkingContent :: "config \<Rightarrow> string \<Rightarrow> string" where
  "processThinkingContent cfg c =
     (if \<not> cacheThinking cfg then '' '' else if c = [] then '' '' else c)"

definition setSignature ::
  "config \<Rightarrow> 'sid \<Rightarrow> string \<Rightarrow> string \<Rightarrow> string \<Rightarrow> options \<Rightarrow> nat \<Rightarrow> sig_store \<Rightarrow> sig_store" where
  \<comment> \<open>An omitted \<^verbatim>\<open>content\<close> defaults to one space, which is also what the empty string becomes.\<close>
  "setSignature cfg sessionId model sig c opts now st =
     (if sig = [] \<or> model = [] then st
      else let isImage = (case opt_isImageModel opts of Some b \<Rightarrow> b | None \<Rightarrow> isImageModel model);
               hasTools = (case opt_hasTools opts of Some b \<Rightarrow> b | None \<Rightarrow> False)
           in if \<not> shouldCacheSignature cfg hasTools isImage then st
              else pushEntry (makeModelKey model)
                     \<lparr>signature = sig, content = processThinkingContent cfg c\<rparr> now st)"

definition getSignature ::
  "config \<Rightarrow> 'sid \<Rightarrow> string \<Rightarrow> options \<Rightarrow> sig_store \<Rightarrow> entry option \<times> sig_store" where
  "getSignature cfg sessionId model opts st =
     (if model = [] then (None, st)
      else case getLatestEntry (makeModelKey model) st of
        (None, st1) \<Rightarrow> (None, st1)
      | (Some e, st1) \<Rightarrow>
          (Some \<lparr>signature = signature e,
                 content = (if cacheThinking cfg then content e else '' '')\<rparr>, st1))"

definition storedHistory :: "string \<Rightarrow> sig_store \<Rightarrow> entry list" where
  \<comment> \<open>What the file of a model key holds as its history; an observation used in the claims.\<close>
  "storedHistory key st =
     (case cache_files st key of
        Some (CacheDoc m (Some xs) t) \<Rightarrow> xs
      | _ \<Rightarrow> [])"

section \<open>Token store (credential repository)\<close>

text \<open>
  The repository keeps one JSON document, \<^verbatim>\<open>{ salt, tokens }\<close>, and an in-memory cache.
  A token is a JavaScript object with primitive field values: a map from the names of its
  own properties to their values. An own property may hold \<^verbatim>\<open>undefined\<close> (\<open>JUndefined\<close>),
  which differs from an absent property under object spread, although both read as
  \<^verbatim>\<open>undefined\<close>; \<^verbatim>\<open>JSON.stringify\<close> omits such a property, so a document on disk holds none.
  The file is modelled by what \<^verbatim>\<open>JSON.parse\<close> makes of its text (an empty file is read as
  \<^verbatim>\<open>{}\<close>); the writes inside \<^verbatim>\<open>getSalt\<close> serialise data that was just parsed. Every \<^verbatim>\<open>fs\<close> call consumes one flag
  of the failure schedule \<open>ts_io\<close>; a failed write leaves the file as it was. The outcome
  of \<^verbatim>\<open>fs.mkdir\<close> is discarded by the source and is not modelled: a missing directory shows
  as a failing write. Exceptions are \<open>Inl\<close> values.
  \<^verbatim>\<open>generateSalt\<close> (utils/idGenerator.js) and \<^verbatim>\<open>FILE_CACHE_TTL\<close> (constants/index.js) lie
  outside the files verified here: the generator is the parameter \<open>gen\<close>, which gives the
  salt produced by the n-th call, and the time-to-live is the parameter \<open>ttl\<close>.
\<close>

datatype jsval = JUndefined | JNull | JBool bool | JNum int | JStr string

definition truthy :: "jsval \<Rightarrow> bool" where
  "truthy v =
     (case v of
        JUndefined \<Rightarrow> False
      | JNull \<Rightarrow> False
      | JBool b \<Rightarrow> b
      | JNum n \<Rightarrow> n \<noteq> 0
      | JStr x \<Rightarrow> x \<noteq> [])"

type_synonym token = "string \<rightharpoonup> jsval"

definition getProp :: "token \<Rightarrow> string \<Rightarrow> jsval" where
  \<comment> \<open>The property read \<^verbatim>\<open>t.k\<close>: an absent property reads as \<^verbatim>\<open>undefined\<close>.\<close>
  "getProp t k = (case t k of None \<Rightarrow> JUndefined | Some v \<Rightarrow> v)"

definition dropUndefined :: "token \<Rightarrow> token" where
  \<comment> \<open>One object through \<^verbatim>\<open>JSON.stringify\<close> and back: properties holding \<^verbatim>\<open>undefined\<close> are omitted.\<close>
  "dropUndefined t = (\<lambda>k. case t k of Some JUndefined \<Rightarrow> None | v \<Rightarrow> v)"

definition jsonRoundTrip :: "token list \<Rightarrow> token list" where
  \<comment> \<open>What \<^verbatim>\<open>JSON.parse\<close> reads back from \<^verbatim>\<open>JSON.stringify\<close> of an array of tokens.\<close>
  "jsonRoundTrip ts = map dropUndefined ts"

definition jsonTokens :: "token list \<Rightarrow> bool" where
  \<comment> \<open>The tokens hold JSON values only, as every array parsed from a file does.\<close>
  "jsonTokens ts = (\<forall>t\<in>set ts. \<forall>k. t k \<noteq> Some JUndefined)"

datatype tokens_field =
    TokensAbsent
  | TokensArray "token list"
  | TokensOther jsval

datatype document =
    Garbage
  | DocNull
  | DocPrimitive
  | DocArray "token list"
  | DocObject (doc_salt: "jsval option") (doc_tokens: tokens_field)

datatype error = IOError | SyntaxError | TypeError

record token_store =
  ts_file :: "document option"
  ts_cache :: "token list option"
  ts_cacheTime :: int
  ts_salt :: "jsval option"
  ts_io :: "bool list"
  ts_rng :: nat

definition generateSalt :: "(nat \<Rightarrow> string) \<Rightarrow> token_store \<Rightarrow> string \<times> token_store" where
  "generateSalt gen s = (gen (ts_rng s), s\<lparr>ts_rng := Suc (ts_rng s)\<rparr>)"

definition next_io :: "token_store \<Rightarrow> bool \<times> token_store" where
  "next_io s = (case io_fails (ts_io s) of (b, rest) \<Rightarrow> (b, s\<lparr>ts_io := rest\<rparr>))"

definition fs_access :: "token_store \<Rightarrow> (error + unit) \<times> token_store" where
  "fs_access s =
     (case next_io s of
        (b, s1) \<Rightarrow> if b \<or> ts_file s1 = None then (Inl IOError, s1) else (Inr (), s1))"

definition fs_readFile :: "token_store \<Rightarrow> (error + document) \<times> token_store" where
  "fs_readFile s =
     (case next_io s of
        (b, s1) \<Rightarrow>
          (case ts_file s1 of
             None \<Rightarrow> (Inl IOError, s1)
           | Some d \<Rightarrow> if b then (Inl IOError, s1) else (Inr d, s1)))"

definition fs_writeFile :: "document \<Rightarrow> token_store \<Rightarrow> (error + unit) \<times> token_store" where
  "fs_writeFile d s =
     (case next_io s of
        (b, s1) \<Rightarrow> if b then (Inl IOError, s1) else (Inr (), s1\<lparr>ts_file := Some d\<rparr>))"

definition ensureFileExists :: "(nat \<Rightarrow> string) \<Rightarrow> token_store \<Rightarrow> (error + unit) \<times> token_store" where
  \<comment> \<open>\<^verbatim>\<open>_ensureFileExists\<close>: the write in the handler of the failed access is not guarded.\<close>
  "ensureFileExists gen s =
     (case fs_access s of
        (Inr u, s1) \<Rightarrow> (Inr (), s1)
      | (Inl e, s1) \<Rightarrow>
          (case generateSalt gen s1 of
             (salt, s2) \<Rightarrow> fs_writeFile (DocObject (Some (JStr salt)) (TokensArray [])) s2))"

definition falsySalt :: "jsval option \<Rightarrow> bool" where
  \<comment> \<open>\<^verbatim>\<open>!parsed.salt\<close> and \<^verbatim>\<open>!this._salt\<close>\<close>
  "falsySalt v = (case v of None \<Rightarrow> True | Some x \<Rightarrow> \<not> truthy x)"

definition tokensOrEmpty :: "tokens_field \<Rightarrow> tokens_field" where
  \<comment> \<open>\<^verbatim>\<open>parsed.tokens || []\<close>\<close>
  "tokensOrEmpty f =
     (case f of
        TokensAbsent \<Rightarrow> TokensArray []
      | TokensArray ts \<Rightarrow> TokensArray ts
      | TokensOther v \<Rightarrow> if truthy v then TokensOther v else TokensArray [])"

definition getSalt_try :: "(nat \<Rightarrow> string) \<Rightarrow> token_store \<Rightarrow> (error + jsval) \<times> token_store" where
  \<comment> \<open>The body of the \<^verbatim>\<open>try\<close> block of \<^verbatim>\<open>getSalt\<close>.\<close>
  "getSalt_try gen s =
     (case fs_readFile s of
        (Inl e, s1) \<Rightarrow> (Inl e, s1)
      | (Inr parsed, s1) \<Rightarrow>
          (case parsed of
             Garbage \<Rightarrow> (Inl SyntaxError, s1)
           | DocNull \<Rightarrow> (Inl TypeError, s1)
           | DocPrimitive \<Rightarrow>
               (case generateSalt gen s1 of (salt, s2) \<Rightarrow> (Inl TypeError, s2))
           | DocArray ts \<Rightarrow>
               (case generateSalt gen s1 of
                  (salt, s2) \<Rightarrow>
                    (case fs_writeFile (DocObject (Some (JStr salt)) (TokensArray ts)) s2 of
                       (Inl e, s3) \<Rightarrow> (Inl e, s3)
                     | (Inr u, s3) \<Rightarrow> (Inr (JStr salt), s3\<lparr>ts_salt := Some (JStr salt)\<rparr>)))
           | DocObject salt0 ts \<Rightarrow>
               if falsySalt salt0 then
                 (case generateSalt gen s1 of
                    (salt, s2) \<Rightarrow>
                      (case fs_writeFile (DocObject (Some (JStr salt)) (tokensOrEmpty ts)) s2 of
                         (Inl e, s3) \<Rightarrow> (Inl e, s3)
                       | (Inr u, s3) \<Rightarrow> (Inr (JStr salt), s3\<lparr>ts_salt := Some (JStr salt)\<rparr>)))
               else (Inr (the salt0), s1\<lparr>ts_salt := salt0\<rparr>)))"

definition getSalt :: "(nat \<Rightarrow> string) \<Rightarrow> token_store \<Rightarrow> (error + jsval) \<times> token_store" where
  "getSalt gen s =
     (if \<not> falsySalt (ts_salt s) then (Inr (the (ts_salt s)), s)
      else case ensureFileExists gen s of
        (Inl e, s1) \<Rightarrow> (Inl e, s1)
      | (Inr u, s1) \<Rightarrow>
          (case getSalt_try gen s1 of
             (Inr v, s2) \<Rightarrow> (Inr v, s2)
           | (Inl e, s2) \<Rightarrow>
               (case generateSalt gen s2 of
                  (salt, s3) \<Rightarrow> (Inr (JStr salt), s3\<lparr>ts_salt := Some (JStr salt)\<rparr>))))"

definition isCacheValid :: "int \<Rightarrow> int \<Rightarrow> token_store \<Rightarrow> bool" where
  "isCacheValid ttl now s =
     (case ts_cache s of None \<Rightarrow> False | Some c \<Rightarrow> now - ts_cacheTime s < ttl)"

definition tokensOfDocument :: "document \<Rightarrow> token list" where
  \<comment> \<open>What \<^verbatim>\<open>readAll\<close> takes from a parsed document; every other shape gives the empty array.\<close>
  "tokensOfDocument parsed =
     (case parsed of
        DocArray ts \<Rightarrow> ts
      | DocObject salt0 (TokensArray ts) \<Rightarrow> ts
      | _ \<Rightarrow> [])"

definition readAll ::
  "(nat \<Rightarrow> string) \<Rightarrow> int \<Rightarrow> int \<Rightarrow> token_store \<Rightarrow> (error + token list) \<times> token_store" where
  "readAll gen ttl now s =
     (if isCacheValid ttl now s then (Inr (the (ts_cache s)), s)
      else case ensureFileExists gen s of
        (Inl e, s1) \<Rightarrow> (Inl e, s1)
      | (Inr u, s1) \<Rightarrow>
          (case fs_readFile s1 of
             (Inl e, s2) \<Rightarrow> (Inr [], s2\<lparr>ts_cache := Some [], ts_cacheTime := now\<rparr>)
           | (Inr parsed, s2) \<Rightarrow>
               (Inr (tokensOfDocument parsed),
                s2\<lparr>ts_cache := Some (tokensOfDocument parsed), ts_cacheTime := now\<rparr>)))"

definition writeAll ::
  "(nat \<Rightarrow> string) \<Rightarrow> int \<Rightarrow> token list option \<Rightarrow> token_store \<Rightarrow> (error + unit) \<times> token_store" where
  \<comment> \<open>\<open>None\<close> stands for an argument that is not an array. The salt that \<^verbatim>\<open>getSalt\<close> returns is
      a string or a truthy value of the document, never \<^verbatim>\<open>undefined\<close>.\<close>
  "writeAll gen now tokens s =
     (case ensureFileExists gen s of
        (Inl e, s1) \<Rightarrow> (Inl e, s1)
      | (Inr u, s1) \<Rightarrow>
          (let normalized = (case tokens of Some ts \<Rightarrow> ts | None \<Rightarrow> []) in
           case getSalt gen s1 of
             (Inl e, s2) \<Rightarrow> (Inl e, s2)
           | (Inr salt, s2) \<Rightarrow>
               (case fs_writeFile
                       (DocObject (Some salt) (TokensArray (jsonRoundTrip normalized))) s2 of
                  (Inl e, s3) \<Rightarrow> (Inl e, s3)
                | (Inr u, s3) \<Rightarrow>
                    (Inr (), s3\<lparr>ts_cache := Some normalized, ts_cacheTime := now\<rparr>))))"

fun findIndex :: "('a \<Rightarrow> bool) \<Rightarrow> 'a list \<Rightarrow> nat option" where
  \<comment> \<open>\<^verbatim>\<open>Array.prototype.findIndex\<close>; \<open>None\<close> is the result -1.\<close>
  "findIndex P [] = None"
| "findIndex P (x # xs) = (if P x then Some 0 else map_option Suc (findIndex P xs))"

definition applyUpdate :: "token option \<Rightarrow> token list \<Rightarrow> token list" where
  \<comment> \<open>The closure \<^verbatim>\<open>applyUpdate\<close> acting on \<^verbatim>\<open>allTokens\<close>; \<open>None\<close> is a falsy element. The rest
      pattern removes the own property \<^verbatim>\<open>sessionId\<close>; the spread copies every own property of
      \<^verbatim>\<open>plain\<close>, also one that holds \<^verbatim>\<open>undefined\<close>.\<close>
  "applyUpdate targetToken allTokens =
     (case targetToken of
        None \<Rightarrow> allTokens
      | Some tgt \<Rightarrow>
          (case findIndex (\<lambda>t. getProp t ''refresh_token'' = getProp tgt ''refresh_token'')
                  allTokens of
             None \<Rightarrow> allTokens
           | Some index \<Rightarrow>
               allTokens[index := (allTokens ! index) ++ (tgt(''sessionId'' := None))]))"

definition mergeActiveTokens ::
  "(nat \<Rightarrow> string) \<Rightarrow> int \<Rightarrow> int \<Rightarrow> token option list \<Rightarrow> token option \<Rightarrow> token_store \<Rightarrow>
   (error + unit) \<times> token_store" where
  "mergeActiveTokens gen ttl now activeTokens tokenToUpdate s =
     (case readAll gen ttl now s of
        (Inl e, s1) \<Rightarrow> (Inl e, s1)
      | (Inr allTokens, s1) \<Rightarrow>
          writeAll gen now
            (Some (case tokenToUpdate of
                     Some t \<Rightarrow> applyUpdate (Some t) allTokens
                   | None \<Rightarrow> fold applyUpdate activeTokens allTokens))
            s1)"

definition newProcess :: "token_store \<Rightarrow> token_store" where
  \<comment> \<open>A restart: the constructor's initial fields over the same file.\<close>
  "newProcess s = s\<lparr>ts_cache := None, ts_cacheTime := 0, ts_salt := None\<rparr>"

datatype store_op =
    GetSalt
  | ReadAll int
  | WriteAll int "token list option"
  | MergeActiveTokens int "token option list" "token option"

datatype outcome = Threw error | Salt jsval | Tokens "token list" | Done

definition step :: "(nat \<Rightarrow> string) \<Rightarrow> int \<Rightarrow> store_op \<Rightarrow> token_store \<Rightarrow> outcome \<times> token_store" where
  \<comment> \<open>One call of a public method, run to completion.\<close>
  "step gen ttl c s =
     (case c of
        GetSalt \<Rightarrow>
          (case getSalt gen s of (Inl e, s') \<Rightarrow> (Threw e, s') | (Inr v, s') \<Rightarrow> (Salt v, s'))
      | ReadAll now \<Rightarrow>
          (case readAll gen ttl now s of (Inl e, s') \<Rightarrow> (Threw e, s') | (Inr ts, s') \<Rightarrow> (Tokens ts, s'))
      | WriteAll now tokens \<Rightarrow>
          (case writeAll gen now tokens s of (Inl e, s') \<Rightarrow> (Threw e, s') | (Inr u, s') \<Rightarrow> (Done, s'))
      | MergeActiveTokens now active upd \<Rightarrow>
          (case mergeActiveTokens gen ttl now active upd s of
             (Inl e, s') \<Rightarrow> (Threw e, s') | (Inr u, s') \<Rightarrow> (Done, s')))"

fun run :: "(nat \<Rightarrow> string) \<Rightarrow> int \<Rightarrow> store_op list \<Rightarrow> token_store \<Rightarrow>
            (store_op \<times> outcome \<times> token_store) list" where
  \<comment> \<open>A sequence of calls, one after the other, with each call's outcome and the state after it.\<close>
  "run gen ttl [] s = []"
| "run gen ttl (c # cs) s =
     (case step gen ttl c s of (r, s') \<Rightarrow> (c, r, s') # run gen ttl cs s')"

definition fixedSalt :: "string \<Rightarrow> nat \<Rightarrow> string" where
  \<comment> \<open>A generator for examples: every call produces the same salt.\<close>
  "fixedSalt x n = x"

definition wrongShape :: "document \<Rightarrow> bool" where
  \<comment> \<open>Malformed JSON, or a document that holds no array of tokens.\<close>
  "wrongShape d =
     (case d of
        DocArray ts \<Rightarrow> False
      | DocObject salt0 (TokensArray ts) \<Rightarrow> False
      | _ \<Rightarrow> True)"

definition isWrite :: "store_op \<Rightarrow> bool" where
  "isWrite c =
     (case c of
        WriteAll now tokens \<Rightarrow> True
      | MergeActiveTokens now active upd \<Rightarrow> True
      | _ \<Rightarrow> False)"

section \<open>Substring tests\<close>

lemma str_includes_iff: "str_includes s n \<longleftrightarrow> (\<exists>pre suf. s = pre @ n @ suf)"
proof (induction s)
  case Nil
  then show ?case by auto
next
  case (Cons c cs)
  show ?case
  proof
    assume "str_includes (c # cs) n"
    then consider "prefix n (c # cs)" | "str_includes cs n" by auto
    then show "\<exists>pre suf. c # cs = pre @ n @ suf"
    proof cases
      case 1
      then obtain suf where "c # cs = n @ suf" by (auto simp: prefix_def)
      then have "c # cs = [] @ n @ suf" by simp
      then show ?thesis by blast
    next
      case 2
      with Cons.IH obtain pre suf where "cs = pre @ n @ suf" by blast
      then have "c # cs = (c # pre) @ n @ suf" by simp
      then show ?thesis by blast
    qed
  next
    assume "\<exists>pre suf. c # cs = pre @ n @ suf"
    then obtain pre suf where eq: "c # cs = pre @ n @ suf" by blast
    show "str_includes (c # cs) n"
    proof (cases pre)
      case Nil
      with eq have "prefix n (c # cs)" by (simp add: prefix_def)
      then show ?thesis by simp
    next
      case (Cons p ps)
      with eq have "cs = ps @ n @ suf" by simp
      with Cons.IH have "str_includes cs n" by blast
      then show ?thesis by simp
    qed
  qed
qed

lemma contains_ci_iff:
  "contains_ci s n \<longleftrightarrow> str_includes (toLowerCase s) (toLowerCase n)"
proof
  assume "contains_ci s n"
  then obtain pre w suf where "s = pre @ w @ suf" "map toLowerChar w = map toLowerChar n"
    by (auto simp: contains_ci_def)
  then have "toLowerCase s = toLowerCase pre @ toLowerCase n @ toLowerCase suf"
    by (simp add: toLowerCase_def)
  then show "str_includes (toLowerCase s) (toLowerCase n)"
    unfolding str_includes_iff by blast
next
  assume "str_includes (toLowerCase s) (toLowerCase n)"
  then obtain p q where "map toLowerChar s = p @ map toLowerChar n @ q"
    unfolding str_includes_iff toLowerCase_def by blast
  then have "\<exists>us vs. s = us @ vs \<and> p = map toLowerChar us \<and> map toLowerChar n @ q = map toLowerChar vs"
    by (simp add: map_eq_append_conv)
  then obtain pre rest where s: "s = pre @ rest"
    and rest: "map toLowerChar n @ q = map toLowerChar rest"
    by blast
  from rest have "\<exists>w suf. rest = w @ suf \<and> map toLowerChar n = map toLowerChar w \<and> q = map toLowerChar suf"
    by (simp add: append_eq_map_conv)
  then obtain w suf where "rest = w @ suf" "map toLowerChar w = map toLowerChar n"
    by auto
  with s show "contains_ci s n" unfolding contains_ci_def by blast
qed

lemma str_includes_gemini_of_marker:
  "str_includes s ''gemini-3-pro-image'' \<Longrightarrow> str_includes s ''gemini''"
proof -
  assume "str_includes s ''gemini-3-pro-image''"
  then obtain pre suf where "s = pre @ ''gemini-3-pro-image'' @ suf"
    unfolding str_includes_iff by blast
  then have "s = pre @ ''gemini'' @ (''-3-pro-image'' @ suf)" by simp
  then show ?thesis unfolding str_includes_iff by blast
qed

declare contains_ci_iff [code]

lemma toLowerCase_needles:
  "toLowerCase ''claude'' = ''claude''"
  "toLowerCase ''gemini-3-pro-image'' = ''gemini-3-pro-image''"
  "toLowerCase ''gemini'' = ''gemini''"
  "toLowerCase ''publishers/google/'' = ''publishers/google/''"
  by code_simp+

section \<open>Claims about the cooldown manager\<close>

text \<open>
  C2. Family classification is case-insensitive substring matching in the fixed order
  claude, image-variant marker, generic gemini, other: an identifier that contains
  "claude" in any letter case is classified claude whatever else it contains; one that
  reaches the second test and contains "gemini-3-pro-image" is classified as the image
  family (group key "banana") although it also contains "gemini"; the generic test
  (substring "gemini" or "publishers/google/") comes third, and everything else is other.
\<close>

theorem getGroupKey_priority_order:
  "(contains_ci m ''claude'' \<longrightarrow> getGroupKey m = ''claude'') \<and>
   (\<not> contains_ci m ''claude'' \<and> contains_ci m ''gemini-3-pro-image'' \<longrightarrow>
      contains_ci m ''gemini'' \<and> getGroupKey m = ''banana'') \<and>
   (\<not> contains_ci m ''claude'' \<and> \<not> contains_ci m ''gemini-3-pro-image'' \<and>
      (contains_ci m ''gemini'' \<or> contains_ci m ''publishers/google/'') \<longrightarrow>
      getGroupKey m = ''gemini'') \<and>
   (\<not> contains_ci m ''claude'' \<and> \<not> contains_ci m ''gemini-3-pro-image'' \<and>
      \<not> contains_ci m ''gemini'' \<and> \<not> contains_ci m ''publishers/google/'' \<longrightarrow>
      getGroupKey m = ''other'')"
proof -
  define a where "a = str_includes (toLowerCase m) ''claude''"
  define b where "b = str_includes (toLowerCase m) ''gemini-3-pro-image''"
  define c where "c = str_includes (toLowerCase m) ''gemini''"
  define d where "d = str_includes (toLowerCase m) ''publishers/google/''"
  have ci: "contains_ci m ''claude'' = a" "contains_ci m ''gemini-3-pro-image'' = b"
    "contains_ci m ''gemini'' = c" "contains_ci m ''publishers/google/'' = d"
    unfolding contains_ci_iff toLowerCase_needles a_def b_def c_def d_def by (rule refl)+
  have key: "getGroupKey m =
      (if m = [] then ''other'' else if a then ''claude'' else if b then ''banana''
       else if c \<or> d then ''gemini'' else ''other'')"
    unfolding getGroupKey_def Let_def a_def b_def c_def d_def by (rule refl)
  have e: "\<not> a" "\<not> b" "\<not> c" "\<not> d" if "m = []"
    using that unfolding a_def b_def c_def d_def toLowerCase_def by simp_all
  have bc: "c" if "b"
    using that str_includes_gemini_of_marker unfolding b_def c_def by blast
  have 1: "a \<longrightarrow> getGroupKey m = ''claude''"
    using e(1) unfolding key by (cases "m = []") simp_all
  have 2: "\<not> a \<and> b \<longrightarrow> c \<and> getGroupKey m = ''banana''"
    using e(2) bc unfolding key by (cases "m = []") simp_all
  have 3: "\<not> a \<and> \<not> b \<and> (c \<or> d) \<longrightarrow> getGroupKey m = ''gemini''"
    using e(3,4) unfolding key by (cases "m = []") auto
  have 4: "\<not> a \<and> \<not> b \<and> \<not> c \<and> \<not> d \<longrightarrow> getGroupKey m = ''other''"
    unfolding key by simp
  show ?thesis unfolding ci using 1 2 3 4 by blast
qed


theorem getGroupKey_priority_order_witness:
  "getGroupKey ''Claude-Gemini-3-Pro-Image'' = ''claude'' \<and>
   getGroupKey ''Gemini-3-Pro-Image-4K'' = ''banana'' \<and>
   getGroupKey ''publishers/google/models/x'' = ''gemini'' \<and>
   getGroupKey ''gpt-oss-120b'' = ''other''"
proof -
  have 1: "contains_ci ''Claude-Gemini-3-Pro-Image'' ''claude''"
    by code_simp
  have 2: "\<not> contains_ci ''Gemini-3-Pro-Image-4K'' ''claude'' \<and>
           contains_ci ''Gemini-3-Pro-Image-4K'' ''gemini-3-pro-image''"
    by code_simp
  have 3: "\<not> contains_ci ''publishers/google/models/x'' ''claude'' \<and>
           \<not> contains_ci ''publishers/google/models/x'' ''gemini-3-pro-image'' \<and>
           (contains_ci ''publishers/google/models/x'' ''gemini'' \<or>
            contains_ci ''publishers/google/models/x'' ''publishers/google/'')"
    by code_simp
  have 4: "\<not> contains_ci ''gpt-oss-120b'' ''claude'' \<and>
           \<not> contains_ci ''gpt-oss-120b'' ''gemini-3-pro-image'' \<and>
           \<not> contains_ci ''gpt-oss-120b'' ''gemini'' \<and>
           \<not> contains_ci ''gpt-oss-120b'' ''publishers/google/''"
    by code_simp
  note t1 = getGroupKey_priority_order [of "''Claude-Gemini-3-Pro-Image''",
      THEN conjunct1, THEN mp, OF 1]
  note t2 = getGroupKey_priority_order [of "''Gemini-3-Pro-Image-4K''",
      THEN conjunct2, THEN conjunct1, THEN mp, OF 2, THEN conjunct2]
  note t3 = getGroupKey_priority_order [of "''publishers/google/models/x''",
      THEN conjunct2, THEN conjunct2, THEN conjunct1, THEN mp, OF 3]
  note t4 = getGroupKey_priority_order [of "''gpt-oss-120b''",
      THEN conjunct2, THEN conjunct2, THEN conjunct2, THEN mp, OF 4]
  show ?thesis
    by (intro conjI) (rule t1, rule t2, rule t3, rule t4)
qed

text \<open>
  Two identifiers that show the order of the tests: one holds neither "claude" nor
  "gemini" and is classified gemini by the "publishers/google/" test; the other holds the
  image-variant marker and is classified claude.
\<close>

theorem getGroupKey_order_counterexample:
  "\<not> contains_ci ''publishers/google/models/x'' ''claude'' \<and>
   \<not> contains_ci ''publishers/google/models/x'' ''gemini-3-pro-image'' \<and>
   \<not> contains_ci ''publishers/google/models/x'' ''gemini'' \<and>
   getGroupKey ''publishers/google/models/x'' = ''gemini'' \<and>
   contains_ci ''claude-gemini-3-pro-image'' ''gemini-3-pro-image'' \<and>
   getGroupKey ''claude-gemini-3-pro-image'' = ''claude''"
  by code_simp




section \<open>Signature cache: auxiliary facts\<close>

lemma trimToCapacity_drop:
  "trimToCapacity xs = drop (length xs - MAX_SIGNATURES_PER_MODEL) xs"
proof (induction xs rule: trimToCapacity.induct)
  case (1 xs)
  show ?case
  proof (cases "length xs > MAX_SIGNATURES_PER_MODEL")
    case True
    then obtain y ys where xs: "xs = y # ys" by (cases xs) auto
    from True have "trimToCapacity xs = trimToCapacity (tl xs)"
      by (subst trimToCapacity.simps) simp
    also have "\<dots> = drop (length (tl xs) - MAX_SIGNATURES_PER_MODEL) (tl xs)"
      using "1.IH" True by simp
    also have "\<dots> = drop (length xs - MAX_SIGNATURES_PER_MODEL) xs"
      using True xs by (simp add: Suc_diff_le)
    finally show ?thesis .
  next
    case False
    then show ?thesis by (subst trimToCapacity.simps) simp
  qed
qed

lemma length_trimToCapacity: "length (trimToCapacity xs) \<le> MAX_SIGNATURES_PER_MODEL"
  by (simp add: trimToCapacity_drop)

lemma readModelCache_files: "cache_files (snd (readModelCache k st)) = cache_files st"
  by (auto simp: readModelCache_def split: option.splits prod.splits bool.splits cache_file.splits)

lemma readModelCache_io:
  "True \<notin> set (cache_io st) \<Longrightarrow> True \<notin> set (cache_io (snd (readModelCache k st)))"
  by (cases "cache_io st")
     (auto simp: readModelCache_def io_fails_def
           split: option.splits prod.splits bool.splits cache_file.splits)

lemma readModelCache_no_failure:
  "\<not> falsyKey k \<Longrightarrow> True \<notin> set (cache_io st) \<Longrightarrow>
   fst (readModelCache k st) = storedHistory (the k) st"
  by (cases "cache_io st")
     (auto simp: readModelCache_def io_fails_def storedHistory_def
           split: option.splits prod.splits bool.splits cache_file.splits)

lemma writeModelCache_cases:
  "cache_files (writeModelCache k xs now st) = cache_files st \<or>
   (\<not> falsyKey k \<and>
    cache_files (writeModelCache k xs now st) =
      (cache_files st)(the k \<mapsto> CacheDoc (the k) (Some xs) now))"
  by (auto simp: writeModelCache_def split: prod.splits bool.splits)

lemma writeModelCache_no_failure:
  "\<not> falsyKey k \<Longrightarrow> True \<notin> set (cache_io st) \<Longrightarrow>
   cache_files (writeModelCache k xs now st) =
     (cache_files st)(the k \<mapsto> CacheDoc (the k) (Some xs) now) \<and>
   True \<notin> set (cache_io (writeModelCache k xs now st))"
  by (cases "cache_io st") (auto simp: writeModelCache_def io_fails_def)

lemma pushEntry_cases:
  "cache_files (pushEntry k e now st) = cache_files st \<or>
   (\<exists>h. \<not> falsyKey k \<and> cache_files (pushEntry k e now st) =
      (cache_files st)(the k \<mapsto> CacheDoc (the k) (Some (trimToCapacity (h @ [e]))) now))"
proof -
  obtain xs st1 where r: "readModelCache k st = (xs, st1)" by (cases "readModelCache k st")
  then have f: "cache_files st1 = cache_files st"
    using readModelCache_files [of k st] by simp
  let ?w = "writeModelCache k (trimToCapacity (xs @ [e])) now st1"
  have "pushEntry k e now st = st \<or> pushEntry k e now st = st1 \<or> pushEntry k e now st = ?w"
    unfolding pushEntry_def r by simp
  then consider "pushEntry k e now st = st" | "pushEntry k e now st = st1"
    | "pushEntry k e now st = ?w"
    by blast
  then show ?thesis
  proof cases
    case 1
    then show ?thesis by simp
  next
    case 2
    then show ?thesis using f by simp
  next
    case 3
    from writeModelCache_cases [of k "trimToCapacity (xs @ [e])" now st1]
    show ?thesis unfolding 3 f by blast
  qed
qed

lemma storedHistory_cong:
  "cache_files st' = cache_files st \<Longrightarrow> storedHistory key st' = storedHistory key st"
  by (simp add: storedHistory_def)

lemma storedHistory_files_upd:
  "cache_files st' = (cache_files st)(k \<mapsto> CacheDoc m (Some xs) t) \<Longrightarrow>
   storedHistory key st' = (if key = k then xs else storedHistory key st)"
  by (simp add: storedHistory_def)

lemma pushEntry_history_cases:
  "storedHistory key (pushEntry k e now st) = storedHistory key st \<or>
   (\<exists>h. storedHistory key (pushEntry k e now st) = trimToCapacity (h @ [e]))"
proof -
  from pushEntry_cases [of k e now st]
  consider "cache_files (pushEntry k e now st) = cache_files st"
    | h where "cache_files (pushEntry k e now st) =
        (cache_files st)(the k \<mapsto> CacheDoc (the k) (Some (trimToCapacity (h @ [e]))) now)"
    by blast
  then show ?thesis
  proof cases
    case 1
    from storedHistory_cong [OF 1, of key] show ?thesis by blast
  next
    case 2
    from storedHistory_files_upd [OF 2, of key] show ?thesis
      by (cases "key = the k") auto
  qed
qed

lemma pushEntry_no_failure:
  assumes "key \<noteq> []" "signature e \<noteq> []" "True \<notin> set (cache_io st)"
  shows "cache_files (pushEntry (Some key) e now st) =
     (let h = storedHistory key st in
      if h \<noteq> [] \<and> signature (last h) = signature e then cache_files st
      else (cache_files st)(key \<mapsto> CacheDoc key (Some (trimToCapacity (h @ [e]))) now)) \<and>
     True \<notin> set (cache_io (pushEntry (Some key) e now st))"
proof -
  let ?k = "Some key"
  let ?h = "storedHistory key st"
  have nk: "\<not> falsyKey ?k" using assms(1) by (simp add: falsyKey_def)
  obtain xs st1 where r: "readModelCache ?k st = (xs, st1)" by (cases "readModelCache ?k st")
  have xs: "xs = ?h"
    using readModelCache_no_failure [OF nk assms(3)] r by simp
  have f: "cache_files st1 = cache_files st"
    using readModelCache_files [of ?k st] r by simp
  have io: "True \<notin> set (cache_io st1)"
    using readModelCache_io [OF assms(3), of ?k] r by simp
  note w = writeModelCache_no_failure [OF nk io, of "trimToCapacity (?h @ [e])" now]
  show ?thesis
  proof (cases "?h \<noteq> [] \<and> signature (last ?h) = signature e")
    case True
    then have ne: "?h \<noteq> []" and eq: "signature (?h ! (length ?h - 1)) = signature e"
      by (auto simp: last_conv_nth)
    have "pushEntry ?k e now st = st1"
      unfolding pushEntry_def r xs using nk assms(2) ne eq by simp
    then show ?thesis using True f io by (simp add: Let_def)
  next
    case False
    then have ne: "?h = [] \<or> signature (?h ! (length ?h - 1)) \<noteq> signature e"
      by (cases "?h = []") (simp_all add: last_conv_nth)
    have "pushEntry ?k e now st = writeModelCache ?k (trimToCapacity (?h @ [e])) now st1"
      unfolding pushEntry_def r xs using nk assms(2) ne by auto
    then show ?thesis using False w f by (auto simp: Let_def)
  qed
qed

lemma trimToCapacity_snoc_last:
  "trimToCapacity (h @ [e]) \<noteq> [] \<and> last (trimToCapacity (h @ [e])) = e"
  by (simp add: trimToCapacity_drop MAX_SIGNATURES_PER_MODEL_def)

lemma trimToCapacity_twice:
  "trimToCapacity (trimToCapacity xs @ [y]) = trimToCapacity (xs @ [y])"
proof (cases "length xs \<le> 3")
  case True
  then show ?thesis by (simp add: trimToCapacity_drop MAX_SIGNATURES_PER_MODEL_def)
next
  case False
  then have "Suc (length xs - 3) = length xs - 2" by arith
  with False show ?thesis by (simp add: trimToCapacity_drop MAX_SIGNATURES_PER_MODEL_def)
qed

lemma trimToCapacity_last_three:
  "trimToCapacity (h @ [a, b, c]) = [a, b, c]"
  by (simp add: trimToCapacity_drop MAX_SIGNATURES_PER_MODEL_def)

lemma pushEntry_stored:
  assumes "key \<noteq> []" "signature e \<noteq> []" "True \<notin> set (cache_io st)"
  shows "storedHistory key (pushEntry (Some key) e now st) =
     (if storedHistory key st \<noteq> [] \<and> signature (last (storedHistory key st)) = signature e
      then storedHistory key st else trimToCapacity (storedHistory key st @ [e]))"
proof -
  note p = pushEntry_no_failure [OF assms, of now, THEN conjunct1]
  show ?thesis
  proof (cases "storedHistory key st \<noteq> [] \<and> signature (last (storedHistory key st)) = signature e")
    case True
    with p have "cache_files (pushEntry (Some key) e now st) = cache_files st"
      by (simp add: Let_def)
    from storedHistory_cong [OF this, of key] True show ?thesis by simp
  next
    case False
    with p have "cache_files (pushEntry (Some key) e now st) =
        (cache_files st)(key \<mapsto> CacheDoc key (Some (trimToCapacity (storedHistory key st @ [e]))) now)"
      by (auto simp: Let_def)
    from storedHistory_files_upd [OF this, of key] False show ?thesis by auto
  qed
qed



lemma setSignature_pushes_when_cached:
  assumes "model \<noteq> []" "sig \<noteq> []"
    and "shouldCacheSignature cfg
           (case opt_hasTools opts of Some b \<Rightarrow> b | None \<Rightarrow> False)
           (case opt_isImageModel opts of Some b \<Rightarrow> b | None \<Rightarrow> isImageModel model)"
  shows "setSignature cfg sid model sig c opts now st =
     pushEntry (makeModelKey model)
       \<lparr>signature = sig, content = processThinkingContent cfg c\<rparr> now st"
  using assms by (simp add: setSignature_def Let_def)

lemma pushEntry_tail:
  assumes "key \<noteq> []" "signature e \<noteq> []" "True \<notin> set (cache_io st)"
  shows "storedHistory key (pushEntry (Some key) e now st) \<noteq> [] \<and>
         signature (last (storedHistory key (pushEntry (Some key) e now st))) = signature e"
  using pushEntry_stored [OF assms, of now] trimToCapacity_snoc_last [of "storedHistory key st" e]
  by (cases "storedHistory key st \<noteq> [] \<and> signature (last (storedHistory key st)) = signature e")
     auto

lemma four_pushes:
  assumes key: "key \<noteq> []"
    and sigs: "signature e1 \<noteq> []" "signature e2 \<noteq> []" "signature e3 \<noteq> []" "signature e4 \<noteq> []"
    and diff: "signature e1 \<noteq> signature e2" "signature e2 \<noteq> signature e3"
              "signature e3 \<noteq> signature e4"
    and io: "True \<notin> set (cache_io st)"
  shows "cache_files (pushEntry (Some key) e4 t4 (pushEntry (Some key) e3 t3
           (pushEntry (Some key) e2 t2 (pushEntry (Some key) e1 t1 st)))) key =
         Some (CacheDoc key (Some [e2, e3, e4]) t4)"
proof -
  define st1 where "st1 = pushEntry (Some key) e1 t1 st"
  define st2 where "st2 = pushEntry (Some key) e2 t2 st1"
  define st3 where "st3 = pushEntry (Some key) e3 t3 st2"
  let ?h = "\<lambda>s. storedHistory key s"
  have io1: "True \<notin> set (cache_io st1)"
    unfolding st1_def using pushEntry_no_failure [OF key sigs(1) io] by blast
  have io2: "True \<notin> set (cache_io st2)"
    unfolding st2_def using pushEntry_no_failure [OF key sigs(2) io1] by blast
  have io3: "True \<notin> set (cache_io st3)"
    unfolding st3_def using pushEntry_no_failure [OF key sigs(3) io2] by blast
  have t1: "?h st1 \<noteq> [] \<and> signature (last (?h st1)) = signature e1"
    unfolding st1_def by (rule pushEntry_tail [OF key sigs(1) io])
  have h2: "?h st2 = trimToCapacity (?h st1 @ [e2])"
    unfolding st2_def using pushEntry_stored [OF key sigs(2) io1, of t2] t1 diff(1) by auto
  then have l2: "last (?h st2) = e2"
    using trimToCapacity_snoc_last [of "?h st1" e2] by simp
  have h3: "?h st3 = trimToCapacity (?h st2 @ [e3])"
    unfolding st3_def using pushEntry_stored [OF key sigs(3) io2, of t3] l2 diff(2) by auto
  then have l3: "last (?h st3) = e3"
    using trimToCapacity_snoc_last [of "?h st2" e3] by simp
  have "trimToCapacity (?h st3 @ [e4]) = trimToCapacity ((?h st1 @ [e2] @ [e3]) @ [e4])"
    unfolding h3 h2 trimToCapacity_twice by simp
  also have "\<dots> = [e2, e3, e4]"
    using trimToCapacity_last_three [of "?h st1" e2 e3 e4] by simp
  finally have h4: "trimToCapacity (?h st3 @ [e4]) = [e2, e3, e4]" .
  have "cache_files (pushEntry (Some key) e4 t4 st3) =
      (cache_files st3)(key \<mapsto> CacheDoc key (Some (trimToCapacity (?h st3 @ [e4]))) t4)"
    using pushEntry_no_failure [OF key sigs(4) io3, of t4] l3 diff(3) by (auto simp: Let_def)
  then show ?thesis
    unfolding st3_def [symmetric] st2_def [symmetric] st1_def [symmetric] h4 by simp
qed

lemma str_includes_disjoint_tail:
  assumes "set ys \<inter> set n = {}" "n \<noteq> []"
  shows "str_includes (xs @ ys) n \<longleftrightarrow> str_includes xs n"
proof -
  have pre: "prefix n (zs @ ys) \<longleftrightarrow> prefix n zs" for zs
  proof
    assume "prefix n (zs @ ys)"
    then consider "prefix n zs" | us where "n = zs @ us" "prefix us ys"
      unfolding prefix_append by blast
    then show "prefix n zs"
    proof cases
      case 1
      then show ?thesis .
    next
      case 2
      have "us = []"
      proof (rule ccontr)
        assume "us \<noteq> []"
        then obtain u us' where us: "us = u # us'" by (cases us) auto
        with 2 have "u \<in> set ys" "u \<in> set n" by (auto simp: prefix_def)
        with assms(1) show False by blast
      qed
      with 2 show ?thesis by simp
    qed
  next
    assume "prefix n zs"
    then show "prefix n (zs @ ys)" by (rule prefix_prefix)
  qed
  have tail: "\<not> str_includes ys n"
  proof
    assume "str_includes ys n"
    then obtain p q where "ys = p @ n @ q" unfolding str_includes_iff by blast
    then have "set n \<subseteq> set ys" by auto
    with assms show False by (cases n) auto
  qed
  show ?thesis
  proof (induction xs)
    case Nil
    then show ?case using tail assms(2) by simp
  next
    case (Cons x xs)
    have "str_includes ((x # xs) @ ys) n \<longleftrightarrow> prefix n ((x # xs) @ ys) \<or> str_includes (xs @ ys) n"
      by simp
    also have "\<dots> \<longleftrightarrow> prefix n (x # xs) \<or> str_includes xs n"
      unfolding pre Cons.IH ..
    finally show ?case by simp
  qed
qed

lemma resolutionSuffix_shape:
  assumes "toLowerCase suf \<in> set resolutionSuffixes"
  shows "length suf = 3" and "set (toLowerCase suf) \<inter> set ''image'' = {}"
proof -
  from assms have m: "toLowerCase suf = ''-1k'' \<or> toLowerCase suf = ''-2k'' \<or>
      toLowerCase suf = ''-4k'' \<or> toLowerCase suf = ''-8k''"
    by (simp add: resolutionSuffixes_def)
  then have "length (toLowerCase suf) = 3" by auto
  then show "length suf = 3" by (simp add: toLowerCase_def)
  from m show "set (toLowerCase suf) \<inter> set ''image'' = {}" by auto
qed

lemma makeModelKey_suffix:
  assumes "toLowerCase suf \<in> set resolutionSuffixes"
  shows "makeModelKey (base @ suf) = Some (map sanitizeChar base)"
proof -
  note s = resolutionSuffix_shape [OF assms]
  from s(1) have "base @ suf \<noteq> []" by auto
  then show ?thesis
    using assms s(1) by (simp add: makeModelKey_def stripResolutionSuffix_def Let_def)
qed

lemma isImageModel_suffix:
  assumes "toLowerCase suf \<in> set resolutionSuffixes"
  shows "isImageModel (base @ suf) = str_includes (toLowerCase base) ''image''"
proof -
  note s = resolutionSuffix_shape [OF assms]
  from s(1) have ne: "base @ suf \<noteq> []" by auto
  have "toLowerCase (base @ suf) = toLowerCase base @ toLowerCase suf"
    by (simp add: toLowerCase_def)
  then have "str_includes (toLowerCase (base @ suf)) ''image'' =
      str_includes (toLowerCase base) ''image''"
    using str_includes_disjoint_tail [OF s(2), of "toLowerCase base"] by simp
  then show ?thesis
    unfolding isImageModel_def using ne by auto
qed

lemma gemini_image_4K_key:
  "makeModelKey ''gemini-3-pro-image-4K'' = Some ''gemini-3-pro-image''"
  "isImageModel ''gemini-3-pro-image-4K''"
  by code_simp+

lemma readModelCache_next_ok:
  assumes "\<not> falsyKey k" "True \<notin> set (take 1 (cache_io st))"
  shows "fst (readModelCache k st) = storedHistory (the k) st \<and>
         cache_files (snd (readModelCache k st)) = cache_files st \<and>
         (cache_io (snd (readModelCache k st)) = cache_io st \<or>
          cache_io (snd (readModelCache k st)) = tl (cache_io st))"
  using assms
  by (cases "cache_io st")
     (auto simp: readModelCache_def io_fails_def storedHistory_def
           split: option.splits prod.splits bool.splits cache_file.splits)

lemma writeModelCache_next_ok:
  assumes "\<not> falsyKey k" "True \<notin> set (take 1 (cache_io st))"
  shows "cache_files (writeModelCache k xs now st) =
           (cache_files st)(the k \<mapsto> CacheDoc (the k) (Some xs) now)"
  using assms by (cases "cache_io st") (auto simp: writeModelCache_def io_fails_def)

lemma take_1_tl: "True \<notin> set (take 2 xs) \<Longrightarrow> True \<notin> set (take 1 (tl xs))"
  by (cases xs; cases "tl xs") (auto simp: numeral_2_eq_2)

lemma take_1_of_2: "True \<notin> set (take 2 xs) \<Longrightarrow> True \<notin> set (take 1 xs)"
  by (cases xs) (auto simp: numeral_2_eq_2)

lemma pushEntry_appends:
  assumes "key \<noteq> []" "signature e \<noteq> []" "True \<notin> set (take 2 (cache_io st))"
    and "storedHistory key st = [] \<or> signature (last (storedHistory key st)) \<noteq> signature e"
  shows "storedHistory key (pushEntry (Some key) e now st) =
           trimToCapacity (storedHistory key st @ [e])"
proof -
  let ?k = "Some key"
  let ?h = "storedHistory key st"
  have nk: "\<not> falsyKey ?k" using assms(1) by (simp add: falsyKey_def)
  obtain xs st1 where r: "readModelCache ?k st = (xs, st1)" by (cases "readModelCache ?k st")
  from readModelCache_next_ok [OF nk take_1_of_2 [OF assms(3)]] r
  have xs: "xs = ?h" and f: "cache_files st1 = cache_files st"
    and io: "cache_io st1 = cache_io st \<or> cache_io st1 = tl (cache_io st)"
    by simp_all
  have io1: "True \<notin> set (take 1 (cache_io st1))"
    using io take_1_of_2 [OF assms(3)] take_1_tl [OF assms(3)] by auto
  have ne: "?h = [] \<or> signature (?h ! (length ?h - 1)) \<noteq> signature e"
    using assms(4) by (cases "?h = []") (simp_all add: last_conv_nth)
  have "pushEntry ?k e now st = writeModelCache ?k (trimToCapacity (?h @ [e])) now st1"
    unfolding pushEntry_def r xs using nk assms(2) ne by auto
  then have "cache_files (pushEntry ?k e now st) =
      (cache_files st)(key \<mapsto> CacheDoc key (Some (trimToCapacity (?h @ [e]))) now)"
    using writeModelCache_next_ok [OF nk io1, of "trimToCapacity (?h @ [e])" now] f by simp
  from storedHistory_files_upd [OF this, of key] show ?thesis by simp
qed

lemma pushEntry_tail_duplicate:
  assumes "key \<noteq> []" "signature e \<noteq> []" "True \<notin> set (take 1 (cache_io st))"
    and "storedHistory key st \<noteq> []" "signature (last (storedHistory key st)) = signature e"
  shows "cache_files (pushEntry (Some key) e now st) = cache_files st"
proof -
  let ?k = "Some key"
  let ?h = "storedHistory key st"
  have nk: "\<not> falsyKey ?k" using assms(1) by (simp add: falsyKey_def)
  obtain xs st1 where r: "readModelCache ?k st = (xs, st1)" by (cases "readModelCache ?k st")
  from readModelCache_next_ok [OF nk assms(3)] r
  have xs: "xs = ?h" and f: "cache_files st1 = cache_files st"
    by simp_all
  have eq: "signature (?h ! (length ?h - 1)) = signature e"
    using assms(4,5) by (simp add: last_conv_nth)
  have "pushEntry ?k e now st = st1"
    unfolding pushEntry_def r xs using nk assms(2,4) eq by simp
  with f show ?thesis by simp
qed

section \<open>Claims about the signature cache\<close>

text \<open>
  C5. The stored history of a model key under \<^verbatim>\<open>pushEntry\<close>. Whatever the file-system
  calls do, a history of at most 3 entries still has at most 3 entries after a push, and
  a push that changes the history leaves at most 3 entries. For a push that passes the
  guards (non-empty key and signature): when neither its read nor its write fails, a
  signature that differs from the tail's is appended and the last 3 entries are kept, so
  the 4th signature pushed onto \<open>[a, b, c]\<close> leaves \<open>[b, c, e]\<close> (oldest evicted, latest
  last); when its read does not fail, a signature equal to the tail's leaves the history
  and the whole directory unchanged.
\<close>

theorem pushEntry_bounded_history:
  "(length (storedHistory key st) \<le> 3 \<longrightarrow>
      length (storedHistory key (pushEntry k e now st)) \<le> 3) \<and>
   (storedHistory key (pushEntry k e now st) \<noteq> storedHistory key st \<longrightarrow>
      length (storedHistory key (pushEntry k e now st)) \<le> 3) \<and>
   (key \<noteq> [] \<and> signature e \<noteq> [] \<and> True \<notin> set (take 2 (cache_io st)) \<and>
    (storedHistory key st = [] \<or> signature (last (storedHistory key st)) \<noteq> signature e) \<longrightarrow>
      storedHistory key (pushEntry (Some key) e now st) =
        drop (length (storedHistory key st) + 1 - 3) (storedHistory key st @ [e])) \<and>
   (key \<noteq> [] \<and> signature e \<noteq> [] \<and> True \<notin> set (take 2 (cache_io st)) \<and>
    storedHistory key st = [a, b, c] \<and> signature c \<noteq> signature e \<longrightarrow>
      storedHistory key (pushEntry (Some key) e now st) = [b, c, e]) \<and>
   (key \<noteq> [] \<and> signature e \<noteq> [] \<and> True \<notin> set (take 1 (cache_io st)) \<and>
    storedHistory key st \<noteq> [] \<and> signature (last (storedHistory key st)) = signature e \<longrightarrow>
      storedHistory key (pushEntry (Some key) e now st) = storedHistory key st \<and>
      cache_files (pushEntry (Some key) e now st) = cache_files st)"
proof (intro conjI impI)
  note c = pushEntry_history_cases [of key k e now st]
  note l = length_trimToCapacity [unfolded MAX_SIGNATURES_PER_MODEL_def]
  show "length (storedHistory key (pushEntry k e now st)) \<le> 3"
    if "length (storedHistory key st) \<le> 3"
    using c that l by auto
  show "length (storedHistory key (pushEntry k e now st)) \<le> 3"
    if "storedHistory key (pushEntry k e now st) \<noteq> storedHistory key st"
    using c that l by auto
next
  assume h: "key \<noteq> [] \<and> signature e \<noteq> [] \<and> True \<notin> set (take 2 (cache_io st)) \<and>
    (storedHistory key st = [] \<or> signature (last (storedHistory key st)) \<noteq> signature e)"
  then have "storedHistory key (pushEntry (Some key) e now st) =
      trimToCapacity (storedHistory key st @ [e])"
    using pushEntry_appends [of key e st now] by blast
  then show "storedHistory key (pushEntry (Some key) e now st) =
        drop (length (storedHistory key st) + 1 - 3) (storedHistory key st @ [e])"
    by (simp add: trimToCapacity_drop MAX_SIGNATURES_PER_MODEL_def)
next
  assume h: "key \<noteq> [] \<and> signature e \<noteq> [] \<and> True \<notin> set (take 2 (cache_io st)) \<and>
    storedHistory key st = [a, b, c] \<and> signature c \<noteq> signature e"
  then have "storedHistory key (pushEntry (Some key) e now st) = trimToCapacity ([a, b, c] @ [e])"
    using pushEntry_appends [of key e st now] by auto
  then show "storedHistory key (pushEntry (Some key) e now st) = [b, c, e]"
    using trimToCapacity_last_three [of "[a]" b c e] by simp
next
  assume h: "key \<noteq> [] \<and> signature e \<noteq> [] \<and> True \<notin> set (take 1 (cache_io st)) \<and>
    storedHistory key st \<noteq> [] \<and> signature (last (storedHistory key st)) = signature e"
  then have f: "cache_files (pushEntry (Some key) e now st) = cache_files st"
    using pushEntry_tail_duplicate [of key e st now] by blast
  then show "cache_files (pushEntry (Some key) e now st) = cache_files st" .
  from storedHistory_cong [OF f, of key]
  show "storedHistory key (pushEntry (Some key) e now st) = storedHistory key st" .
qed

theorem pushEntry_bounded_history_witness:
  "(let A = \<lparr>signature = ''s1'', content = '' ''\<rparr>;
        B = \<lparr>signature = ''s2'', content = '' ''\<rparr>;
        C = \<lparr>signature = ''s3'', content = ''thought''\<rparr>;
        E = \<lparr>signature = ''s4'', content = '' ''\<rparr>;
        C' = \<lparr>signature = ''s3'', content = ''other''\<rparr>;
        st = \<lparr>cache_files = [''m'' \<mapsto> CacheDoc ''m'' (Some [A, B, C]) 7], cache_io = []\<rparr>
    in storedHistory ''m'' st = [A, B, C] \<and>
       storedHistory ''m'' (pushEntry (Some ''m'') E 9 st) = [B, C, E] \<and>
       length (storedHistory ''m'' (pushEntry (Some ''m'') E 9 st)) \<le> 3 \<and>
       storedHistory ''m'' (pushEntry (Some ''m'') C' 9 st) = [A, B, C])"
proof -
  let ?A = "\<lparr>signature = ''s1'', content = '' ''\<rparr>"
  let ?B = "\<lparr>signature = ''s2'', content = '' ''\<rparr>"
  let ?C = "\<lparr>signature = ''s3'', content = ''thought''\<rparr>"
  let ?E = "\<lparr>signature = ''s4'', content = '' ''\<rparr>"
  let ?C' = "\<lparr>signature = ''s3'', content = ''other''\<rparr>"
  let ?st = "\<lparr>cache_files = [''m'' \<mapsto> CacheDoc ''m'' (Some [?A, ?B, ?C]) 7], cache_io = []\<rparr>"
  have h: "storedHistory ''m'' ?st = [?A, ?B, ?C]"
    by (simp add: storedHistory_def)
  note t1 = pushEntry_bounded_history [where key = "''m''" and st = ?st and k = "Some ''m''"
      and e = ?E and now = 9 and a = ?A and b = ?B and c = ?C]
  note t2 = pushEntry_bounded_history [where key = "''m''" and st = ?st and k = "Some ''m''"
      and e = ?C' and now = 9 and a = ?A and b = ?B and c = ?C]
  have 1: "storedHistory ''m'' (pushEntry (Some ''m'') ?E 9 ?st) = [?B, ?C, ?E]"
    using t1 h by simp
  have 2: "length (storedHistory ''m'' (pushEntry (Some ''m'') ?E 9 ?st)) \<le> 3"
    using t1 h by simp
  have 3: "storedHistory ''m'' (pushEntry (Some ''m'') ?C' 9 ?st) = [?A, ?B, ?C]"
    using t2 h by simp
  show ?thesis unfolding Let_def using h 1 2 3 by blast
qed

text \<open>
  A push whose read fails: \<^verbatim>\<open>readModelCache\<close> catches the error and returns the empty
  array, so the push of a signature equal to the stored tail's replaces the history by
  the one new entry.
\<close>

theorem pushEntry_failed_read_counterexample:
  "storedHistory ''m''
     (pushEntry (Some ''m'') \<lparr>signature = ''s3'', content = ''other''\<rparr> 9
        \<lparr>cache_files = [''m'' \<mapsto> CacheDoc ''m''
            (Some [\<lparr>signature = ''s1'', content = '' ''\<rparr>,
                   \<lparr>signature = ''s2'', content = '' ''\<rparr>,
                   \<lparr>signature = ''s3'', content = ''thought''\<rparr>]) 7],
         cache_io = [True]\<rparr>)
   = [\<lparr>signature = ''s3'', content = ''other''\<rparr>]"
  by (simp add: storedHistory_def pushEntry_def readModelCache_def writeModelCache_def
        falsyKey_def io_fails_def trimToCapacity_drop MAX_SIGNATURES_PER_MODEL_def)



text \<open>
  C7. A model identifier that ends in one of the suffixes -1K, -2K, -4K, -8K (any letter
  case) is keyed by what precedes the suffix, after the replacement of characters that are
  unsafe in a file name; two resolution variants of one base therefore behave alike in
  \<^verbatim>\<open>setSignature\<close> and \<^verbatim>\<open>getSignature\<close>. Scenario: with signature caching enabled for
  image models and no file-system failure, four pushes s1, s2, s3, s4 (each differing from
  the one before) for \<^verbatim>\<open>gemini-3-pro-image-4K\<close> leave the file of key
  \<^verbatim>\<open>gemini-3-pro-image\<close> with model \<^verbatim>\<open>gemini-3-pro-image\<close> and history s2, s3, s4.
\<close>

theorem resolution_variants_share_history:
  "(toLowerCase suf \<in> set resolutionSuffixes \<longrightarrow>
      makeModelKey (base @ suf) = Some (map sanitizeChar base)) \<and>
   (toLowerCase suf \<in> set resolutionSuffixes \<and> set base \<inter> set unsafeFileChars = {} \<longrightarrow>
      makeModelKey (base @ suf) = Some base) \<and>
   (toLowerCase suf \<in> set resolutionSuffixes \<and> base \<noteq> [] \<and>
    stripResolutionSuffix base = base \<longrightarrow>
      makeModelKey (base @ suf) = makeModelKey base) \<and>
   (toLowerCase suf \<in> set resolutionSuffixes \<and> toLowerCase suf' \<in> set resolutionSuffixes \<longrightarrow>
      setSignature cfg sid (base @ suf) sig c opts now st =
        setSignature cfg sid (base @ suf') sig c opts now st \<and>
      getSignature cfg sid (base @ suf) opts st = getSignature cfg sid (base @ suf') opts st) \<and>
   (s1 \<noteq> [] \<and> s2 \<noteq> [] \<and> s3 \<noteq> [] \<and> s4 \<noteq> [] \<and> s1 \<noteq> s2 \<and> s2 \<noteq> s3 \<and> s3 \<noteq> s4 \<and>
    True \<notin> set (cache_io st) \<and> (cacheAllSignatures cfg \<or> cacheImageSignatures cfg) \<and>
    dflt = \<lparr>opt_hasTools = None, opt_isImageModel = None\<rparr> \<longrightarrow>
      cache_files
        (setSignature cfg sid ''gemini-3-pro-image-4K'' s4 c4 dflt t4
          (setSignature cfg sid ''gemini-3-pro-image-4K'' s3 c3 dflt t3
            (setSignature cfg sid ''gemini-3-pro-image-4K'' s2 c2 dflt t2
              (setSignature cfg sid ''gemini-3-pro-image-4K'' s1 c1 dflt t1 st))))
        ''gemini-3-pro-image'' =
      Some (CacheDoc ''gemini-3-pro-image''
              (Some [\<lparr>signature = s2, content = processThinkingContent cfg c2\<rparr>,
                     \<lparr>signature = s3, content = processThinkingContent cfg c3\<rparr>,
                     \<lparr>signature = s4, content = processThinkingContent cfg c4\<rparr>]) t4))"
proof (intro conjI impI)
  assume "toLowerCase suf \<in> set resolutionSuffixes"
  then show "makeModelKey (base @ suf) = Some (map sanitizeChar base)"
    by (rule makeModelKey_suffix)
next
  assume h: "toLowerCase suf \<in> set resolutionSuffixes \<and> set base \<inter> set unsafeFileChars = {}"
  then have "map sanitizeChar base = base"
    by (intro map_idI) (auto simp: sanitizeChar_def)
  with h show "makeModelKey (base @ suf) = Some base"
    using makeModelKey_suffix [of suf base] by simp
next
  assume h: "toLowerCase suf \<in> set resolutionSuffixes \<and> base \<noteq> [] \<and>
    stripResolutionSuffix base = base"
  then show "makeModelKey (base @ suf) = makeModelKey base"
    using makeModelKey_suffix [of suf base] by (simp add: makeModelKey_def)
next
  assume h: "toLowerCase suf \<in> set resolutionSuffixes \<and> toLowerCase suf' \<in> set resolutionSuffixes"
  then have k: "makeModelKey (base @ suf) = makeModelKey (base @ suf')"
    and i: "isImageModel (base @ suf) = isImageModel (base @ suf')"
    and n: "base @ suf \<noteq> []" "base @ suf' \<noteq> []"
    using makeModelKey_suffix [of suf base] makeModelKey_suffix [of suf' base]
      isImageModel_suffix [of suf base] isImageModel_suffix [of suf' base]
      resolutionSuffix_shape(1) [of suf] resolutionSuffix_shape(1) [of suf']
    by auto
  from n have e: "(base @ suf = []) = (base @ suf' = [])" by blast
  show "setSignature cfg sid (base @ suf) sig c opts now st =
        setSignature cfg sid (base @ suf') sig c opts now st"
    unfolding setSignature_def k i e by (rule refl)
  show "getSignature cfg sid (base @ suf) opts st = getSignature cfg sid (base @ suf') opts st"
    unfolding getSignature_def k e by (rule refl)
next
  let ?m = "''gemini-3-pro-image-4K''"
  let ?e = "\<lambda>s c. \<lparr>signature = s, content = processThinkingContent cfg c\<rparr>"
  assume h: "s1 \<noteq> [] \<and> s2 \<noteq> [] \<and> s3 \<noteq> [] \<and> s4 \<noteq> [] \<and> s1 \<noteq> s2 \<and> s2 \<noteq> s3 \<and> s3 \<noteq> s4 \<and>
    True \<notin> set (cache_io st) \<and> (cacheAllSignatures cfg \<or> cacheImageSignatures cfg) \<and>
    dflt = \<lparr>opt_hasTools = None, opt_isImageModel = None\<rparr>"
  then have sc: "shouldCacheSignature cfg
           (case opt_hasTools dflt of Some b \<Rightarrow> b | None \<Rightarrow> False)
           (case opt_isImageModel dflt of Some b \<Rightarrow> b | None \<Rightarrow> isImageModel ?m)"
    using gemini_image_4K_key(2) by (auto simp: shouldCacheSignature_def)
  have m: "?m \<noteq> []" by simp
  have set: "setSignature cfg sid ?m s c dflt t s' =
      pushEntry (Some ''gemini-3-pro-image'') (?e s c) t s'" if "s \<noteq> []" for s c t s'
    using setSignature_pushes_when_cached [OF m that sc, of sid c t s']
    unfolding gemini_image_4K_key(1) .
  have k: "''gemini-3-pro-image'' \<noteq> []" by simp
  from h have ne: "s1 \<noteq> []" "s2 \<noteq> []" "s3 \<noteq> []" "s4 \<noteq> []" by simp_all
  have "setSignature cfg sid ?m s4 c4 dflt t4
          (setSignature cfg sid ?m s3 c3 dflt t3
            (setSignature cfg sid ?m s2 c2 dflt t2
              (setSignature cfg sid ?m s1 c1 dflt t1 st))) =
      pushEntry (Some ''gemini-3-pro-image'') (?e s4 c4) t4
        (pushEntry (Some ''gemini-3-pro-image'') (?e s3 c3) t3
          (pushEntry (Some ''gemini-3-pro-image'') (?e s2 c2) t2
            (pushEntry (Some ''gemini-3-pro-image'') (?e s1 c1) t1 st)))"
    unfolding set [OF ne(1)] set [OF ne(2)] set [OF ne(3)] set [OF ne(4)] by (rule refl)
  moreover have "cache_files (pushEntry (Some ''gemini-3-pro-image'') (?e s4 c4) t4
        (pushEntry (Some ''gemini-3-pro-image'') (?e s3 c3) t3
          (pushEntry (Some ''gemini-3-pro-image'') (?e s2 c2) t2
            (pushEntry (Some ''gemini-3-pro-image'') (?e s1 c1) t1 st)))) ''gemini-3-pro-image'' =
      Some (CacheDoc ''gemini-3-pro-image'' (Some [?e s2 c2, ?e s3 c3, ?e s4 c4]) t4)"
    using h by (intro four_pushes [OF k]) simp_all
  ultimately show "cache_files
        (setSignature cfg sid ''gemini-3-pro-image-4K'' s4 c4 dflt t4
          (setSignature cfg sid ''gemini-3-pro-image-4K'' s3 c3 dflt t3
            (setSignature cfg sid ''gemini-3-pro-image-4K'' s2 c2 dflt t2
              (setSignature cfg sid ''gemini-3-pro-image-4K'' s1 c1 dflt t1 st))))
        ''gemini-3-pro-image'' =
      Some (CacheDoc ''gemini-3-pro-image''
              (Some [\<lparr>signature = s2, content = processThinkingContent cfg c2\<rparr>,
                     \<lparr>signature = s3, content = processThinkingContent cfg c3\<rparr>,
                     \<lparr>signature = s4, content = processThinkingContent cfg c4\<rparr>]) t4)"
    by simp
qed

theorem resolution_variants_share_history_witness:
  "(let cfg = \<lparr>cacheAllSignatures = False, cacheToolSignatures = False,
               cacheImageSignatures = True, cacheThinking = False\<rparr>;
        dflt = \<lparr>opt_hasTools = None, opt_isImageModel = None\<rparr>;
        st = \<lparr>cache_files = Map.empty, cache_io = []\<rparr>
    in makeModelKey (''gemini-3-pro-image'' @ ''-4K'') = Some ''gemini-3-pro-image'' \<and>
       makeModelKey (''gemini-3-pro-image'' @ ''-4K'') = makeModelKey ''gemini-3-pro-image'' \<and>
       getSignature cfg (1::nat) (''gemini-3-pro-image'' @ ''-4K'') dflt st =
         getSignature cfg (1::nat) (''gemini-3-pro-image'' @ ''-2k'') dflt st \<and>
       cache_files
        (setSignature cfg (1::nat) ''gemini-3-pro-image-4K'' ''s4'' ''d'' dflt 4
          (setSignature cfg (1::nat) ''gemini-3-pro-image-4K'' ''s3'' ''c'' dflt 3
            (setSignature cfg (1::nat) ''gemini-3-pro-image-4K'' ''s2'' ''b'' dflt 2
              (setSignature cfg (1::nat) ''gemini-3-pro-image-4K'' ''s1'' ''a'' dflt 1 st))))
        ''gemini-3-pro-image'' =
       Some (CacheDoc ''gemini-3-pro-image''
              (Some [\<lparr>signature = ''s2'', content = processThinkingContent cfg ''b''\<rparr>,
                     \<lparr>signature = ''s3'', content = processThinkingContent cfg ''c''\<rparr>,
                     \<lparr>signature = ''s4'', content = processThinkingContent cfg ''d''\<rparr>]) 4))"
proof -
  let ?cfg = "\<lparr>cacheAllSignatures = False, cacheToolSignatures = False,
               cacheImageSignatures = True, cacheThinking = False\<rparr>"
  let ?dflt = "\<lparr>opt_hasTools = None, opt_isImageModel = None\<rparr>"
  let ?st = "\<lparr>cache_files = Map.empty, cache_io = []\<rparr>"
  have s: "toLowerCase ''-4K'' \<in> set resolutionSuffixes" "toLowerCase ''-2k'' \<in> set resolutionSuffixes"
    by code_simp+
  note t = resolution_variants_share_history [where suf = "''-4K''" and suf' = "''-2k''"
      and base = "''gemini-3-pro-image''" and cfg = ?cfg and sid = "1::nat" and opts = ?dflt
      and dflt = ?dflt and st = ?st and ?s1.0 = "''s1''" and ?s2.0 = "''s2''" and ?s3.0 = "''s3''"
      and ?s4.0 = "''s4''" and ?c1.0 = "''a''" and ?c2.0 = "''b''" and ?c3.0 = "''c''"
      and ?c4.0 = "''d''" and ?t1.0 = 1 and ?t2.0 = 2 and ?t3.0 = 3 and ?t4.0 = 4]
  have u: "set ''gemini-3-pro-image'' \<inter> set unsafeFileChars = {}"
    "''gemini-3-pro-image'' \<noteq> []"
    "stripResolutionSuffix ''gemini-3-pro-image'' = ''gemini-3-pro-image''"
    by code_simp+
  have 1: "makeModelKey (''gemini-3-pro-image'' @ ''-4K'') = Some ''gemini-3-pro-image''"
    using t s u by blast
  have 4: "makeModelKey (''gemini-3-pro-image'' @ ''-4K'') = makeModelKey ''gemini-3-pro-image''"
    using t s u by blast
  have 2: "getSignature ?cfg (1::nat) (''gemini-3-pro-image'' @ ''-4K'') ?dflt ?st =
         getSignature ?cfg (1::nat) (''gemini-3-pro-image'' @ ''-2k'') ?dflt ?st"
    using t s by blast
  have 3: "cache_files
        (setSignature ?cfg (1::nat) ''gemini-3-pro-image-4K'' ''s4'' ''d'' ?dflt 4
          (setSignature ?cfg (1::nat) ''gemini-3-pro-image-4K'' ''s3'' ''c'' ?dflt 3
            (setSignature ?cfg (1::nat) ''gemini-3-pro-image-4K'' ''s2'' ''b'' ?dflt 2
              (setSignature ?cfg (1::nat) ''gemini-3-pro-image-4K'' ''s1'' ''a'' ?dflt 1 ?st))))
        ''gemini-3-pro-image'' =
       Some (CacheDoc ''gemini-3-pro-image''
              (Some [\<lparr>signature = ''s2'', content = processThinkingContent ?cfg ''b''\<rparr>,
                     \<lparr>signature = ''s3'', content = processThinkingContent ?cfg ''c''\<rparr>,
                     \<lparr>signature = ''s4'', content = processThinkingContent ?cfg ''d''\<rparr>]) 4)"
    using t by simp
  show ?thesis unfolding Let_def using 1 2 3 4 by blast
qed

text \<open>
  A model identifier with a character that is unsafe in a file name: the key is not the
  base model name itself.
\<close>

theorem makeModelKey_sanitized_counterexample:
  "makeModelKey ''models/gemini-3-pro-image-4K'' = Some ''models_gemini-3-pro-image''"
  by code_simp

text \<open>
  C9. The session id passed to \<^verbatim>\<open>setSignature\<close> and \<^verbatim>\<open>getSignature\<close> has no effect: any two
  session ids, with the other arguments and the cache state equal, give the same cache
  state and the same result.
\<close>

theorem sessionId_has_no_effect:
  "setSignature cfg sid1 model sig c opts now st = setSignature cfg sid2 model sig c opts now st \<and>
   getSignature cfg sid1 model opts st = getSignature cfg sid2 model opts st"
  by (simp add: setSignature_def getSignature_def)

section \<open>Token store: auxiliary facts\<close>

lemma next_io_frame:
  "next_io s = (b, s1) \<Longrightarrow>
   ts_file s1 = ts_file s \<and> ts_cache s1 = ts_cache s \<and> ts_cacheTime s1 = ts_cacheTime s \<and>
   ts_salt s1 = ts_salt s \<and> ts_rng s1 = ts_rng s"
  by (auto simp: next_io_def split: prod.splits)

lemma fs_access_frame:
  "fs_access s = (r, s1) \<Longrightarrow>
   ts_file s1 = ts_file s \<and> ts_cache s1 = ts_cache s \<and> ts_cacheTime s1 = ts_cacheTime s \<and>
   ts_salt s1 = ts_salt s"
  by (auto simp: fs_access_def split: prod.splits if_splits dest: next_io_frame)

lemma fs_readFile_frame:
  "fs_readFile s = (r, s1) \<Longrightarrow>
   ts_file s1 = ts_file s \<and> ts_cache s1 = ts_cache s \<and> ts_cacheTime s1 = ts_cacheTime s \<and>
   ts_salt s1 = ts_salt s"
  by (auto simp: fs_readFile_def split: prod.splits if_splits option.splits dest: next_io_frame)

lemma fs_writeFile_frame:
  "fs_writeFile d s = (r, s1) \<Longrightarrow>
   ts_cache s1 = ts_cache s \<and> ts_cacheTime s1 = ts_cacheTime s \<and> ts_salt s1 = ts_salt s \<and>
   (case r of Inl e \<Rightarrow> ts_file s1 = ts_file s | Inr u \<Rightarrow> ts_file s1 = Some d)"
  by (auto simp: fs_writeFile_def split: prod.splits if_splits dest: next_io_frame)

lemma generateSalt_frame:
  "generateSalt gen s = (x, s1) \<Longrightarrow>
   ts_file s1 = ts_file s \<and> ts_cache s1 = ts_cache s \<and> ts_cacheTime s1 = ts_cacheTime s \<and>
   ts_salt s1 = ts_salt s \<and> x = gen (ts_rng s)"
  by (auto simp: generateSalt_def)

lemma ensureFileExists_frame:
  "ensureFileExists gen s = (r, s1) \<Longrightarrow>
   ts_cache s1 = ts_cache s \<and> ts_cacheTime s1 = ts_cacheTime s \<and> ts_salt s1 = ts_salt s"
  unfolding ensureFileExists_def
  by (auto split: prod.splits sum.splits
           dest!: fs_access_frame fs_writeFile_frame generateSalt_frame)

lemma getSalt_cached:
  "\<not> falsySalt (ts_salt s) \<Longrightarrow> getSalt gen s = (Inr (the (ts_salt s)), s)"
  by (simp add: getSalt_def)

lemma getSalt_try_sets:
  assumes "\<forall>n. gen n \<noteq> []" "getSalt_try gen s = (Inr v, s')"
  shows "ts_salt s' = Some v \<and> truthy v"
  using assms unfolding getSalt_try_def
  by (auto simp: truthy_def falsySalt_def
           split: prod.splits sum.splits document.splits if_splits option.splits
           dest!: generateSalt_frame)

lemma getSalt_sets:
  assumes "\<forall>n. gen n \<noteq> []" "getSalt gen s = (Inr v, s')"
  shows "ts_salt s' = Some v \<and> truthy v"
proof (cases "falsySalt (ts_salt s)")
  case False
  with assms(2) show ?thesis by (auto simp: getSalt_def falsySalt_def split: option.splits)
next
  case True
  with assms(2) show ?thesis
    unfolding getSalt_def
    using getSalt_try_sets [OF assms(1)] assms(1)
    by (auto simp: truthy_def split: prod.splits sum.splits dest!: generateSalt_frame)
qed

lemma readAll_salt:
  "readAll gen ttl now s = (r, s') \<Longrightarrow> ts_salt s' = ts_salt s"
  unfolding readAll_def
  by (auto split: prod.splits sum.splits if_splits
           dest!: ensureFileExists_frame fs_readFile_frame)


lemma writeAll_cached_salt:
  assumes "ts_salt s = Some v" "truthy v" "writeAll gen now tokens s = (r, s')"
  shows "ts_salt s' = Some v \<and>
         (r = Inr () \<longrightarrow>
            ts_file s' =
              Some (DocObject (Some v) (TokensArray (jsonRoundTrip (case tokens of Some ts \<Rightarrow> ts | None \<Rightarrow> [])))))"
proof -
  obtain r1 s1 where e: "ensureFileExists gen s = (r1, s1)" by (cases "ensureFileExists gen s")
  then have s1: "ts_salt s1 = Some v" using ensureFileExists_frame [OF e] assms(1) by simp
  then have g: "getSalt gen s1 = (Inr v, s1)"
    using getSalt_cached [of s1 gen] assms(2) by (simp add: falsySalt_def)
  show ?thesis
  proof (cases r1)
    case (Inl x)
    with assms(3) e s1 show ?thesis by (auto simp: writeAll_def)
  next
    case (Inr u)
    obtain r3 s3 where w: "fs_writeFile (DocObject (Some v)
        (TokensArray (jsonRoundTrip (case tokens of Some ts \<Rightarrow> ts | None \<Rightarrow> [])))) s1 = (r3, s3)"
      by (cases "fs_writeFile (DocObject (Some v)
        (TokensArray (jsonRoundTrip (case tokens of Some ts \<Rightarrow> ts | None \<Rightarrow> [])))) s1")
    from fs_writeFile_frame [OF w] s1 have f: "ts_salt s3 = Some v"
      "r3 = Inr () \<longrightarrow> ts_file s3 = Some (DocObject (Some v)
        (TokensArray (jsonRoundTrip (case tokens of Some ts \<Rightarrow> ts | None \<Rightarrow> []))))"
      by (auto split: sum.splits)
    from assms(3) show ?thesis
      unfolding writeAll_def Let_def using e Inr g w f
      by (cases r3) auto
  qed
qed

lemma writeAll_throws_iff:
  "fst (writeAll gen now tokens s) = Inl e \<longleftrightarrow>
     fst (ensureFileExists gen s) = Inl e \<or>
     (\<exists>s1. ensureFileExists gen s = (Inr (), s1) \<and>
        (fst (getSalt gen s1) = Inl e \<or>
         (\<exists>v s2. getSalt gen s1 = (Inr v, s2) \<and>
            fst (fs_writeFile (DocObject (Some v)
                   (TokensArray (jsonRoundTrip (case tokens of Some ts \<Rightarrow> ts | None \<Rightarrow> [])))) s2) = Inl e)))"
  unfolding writeAll_def Let_def
  by (auto split: prod.splits sum.splits)

lemma readAll_throws_iff:
  "fst (readAll gen ttl now s) = Inl e \<longleftrightarrow>
     \<not> isCacheValid ttl now s \<and> fst (ensureFileExists gen s) = Inl e"
  unfolding readAll_def
  by (auto split: prod.splits sum.splits)

lemma getSalt_throws_iff:
  "fst (getSalt gen s) = Inl e \<longleftrightarrow>
     falsySalt (ts_salt s) \<and> fst (ensureFileExists gen s) = Inl e"
  unfolding getSalt_def
  by (auto split: prod.splits sum.splits)


lemma getProp_dropUndefined [simp]: "getProp (dropUndefined t) k = getProp t k"
  by (auto simp: getProp_def dropUndefined_def split: option.splits jsval.splits)

lemma dropUndefined_json: "\<forall>k. t k \<noteq> Some JUndefined \<Longrightarrow> dropUndefined t = t"
  by (rule ext) (auto simp: dropUndefined_def split: option.splits jsval.splits)

lemma jsonRoundTrip_json: "jsonTokens ts \<Longrightarrow> jsonRoundTrip ts = ts"
  unfolding jsonTokens_def jsonRoundTrip_def
  by (rule map_idI) (simp add: dropUndefined_json)

lemma length_jsonRoundTrip [simp]: "length (jsonRoundTrip ts) = length ts"
  by (simp add: jsonRoundTrip_def)



lemma applyUpdate_length [simp]: "length (applyUpdate t xs) = length xs"
  by (auto simp: applyUpdate_def split: option.splits)




lemma fold_applyUpdate_length [simp]: "length (fold applyUpdate ts xs) = length xs"
  by (induction ts arbitrary: xs) auto



lemmas store_defs =
  mergeActiveTokens_def readAll_def writeAll_def getSalt_def getSalt_try_def
  ensureFileExists_def fs_access_def fs_readFile_def fs_writeFile_def next_io_def io_fails_def
  generateSalt_def isCacheValid_def tokensOfDocument_def falsySalt_def truthy_def
  tokensOrEmpty_def applyUpdate_def fixedSalt_def newProcess_def getProp_def jsonRoundTrip_def
  dropUndefined_def


lemma ensureFileExists_creates:
  assumes "ts_file s = None" "ensureFileExists gen s = (Inr (), s1)"
  shows "\<exists>salt. ts_file s1 = Some (DocObject (Some salt) (TokensArray []))"
  using assms unfolding ensureFileExists_def fs_access_def
  by (auto split: prod.splits sum.splits if_splits
           dest!: next_io_frame generateSalt_frame fs_writeFile_frame)

lemma fs_readFile_result:
  "fs_readFile s = (Inr d, s1) \<Longrightarrow> ts_file s = Some d"
  by (auto simp: fs_readFile_def split: prod.splits option.splits if_splits dest!: next_io_frame)

lemma readAll_after_ensure:
  assumes "\<not> isCacheValid ttl now s" "ensureFileExists gen s = (Inr (), s1)"
  shows "fst (readAll gen ttl now s) =
           (case fst (fs_readFile s1) of Inl x \<Rightarrow> Inr [] | Inr d \<Rightarrow> Inr (tokensOfDocument d))"
  using assms unfolding readAll_def
  by (auto split: prod.splits sum.splits)

lemma readAll_returns_document_tokens:
  assumes "\<not> isCacheValid ttl now s" "True \<notin> set (ts_io s)" "ts_file s = Some d"
  shows "fst (readAll gen ttl now s) = Inr (tokensOfDocument d)"
proof -
  have n: "next_io s = (False, s\<lparr>ts_io := tl (ts_io s)\<rparr>)"
    using assms(2) by (cases "ts_io s") (auto simp: next_io_def io_fails_def)
  have n': "next_io (s\<lparr>ts_io := tl (ts_io s)\<rparr>) = (False, s\<lparr>ts_io := tl (tl (ts_io s))\<rparr>)"
    using assms(2) by (cases "ts_io s"; cases "tl (ts_io s)") (auto simp: next_io_def io_fails_def)
  have e: "ensureFileExists gen s = (Inr (), s\<lparr>ts_io := tl (ts_io s)\<rparr>)"
    using assms(3) by (simp add: ensureFileExists_def fs_access_def n)
  have r: "fs_readFile (s\<lparr>ts_io := tl (ts_io s)\<rparr>) = (Inr d, s\<lparr>ts_io := tl (tl (ts_io s))\<rparr>)"
    using assms(3) by (simp add: fs_readFile_def n')
  show ?thesis using assms(1) by (simp add: readAll_def e r)
qed

lemma wrongShape_no_tokens: "wrongShape d \<Longrightarrow> tokensOfDocument d = []"
  by (auto simp: wrongShape_def tokensOfDocument_def split: document.splits tokens_field.splits)

lemma step_keeps_salt:
  assumes "ts_salt s = Some v" "truthy v" "step gen ttl c s = (r, s')"
  shows "ts_salt s' = Some v \<and> (c = GetSalt \<longrightarrow> r = Salt v) \<and>
         (isWrite c \<and> r = Done \<longrightarrow>
            (\<exists>toks. ts_file s' = Some (DocObject (Some v) (TokensArray toks))))"
proof (cases c)
  case GetSalt
  have "getSalt gen s = (Inr v, s)"
    using getSalt_cached [of s gen] assms(1,2) by (simp add: falsySalt_def)
  with assms GetSalt show ?thesis by (auto simp: step_def isWrite_def)
next
  case (ReadAll now)
  obtain r1 s1 where "readAll gen ttl now s = (r1, s1)" by (cases "readAll gen ttl now s")
  with assms ReadAll readAll_salt [of gen ttl now s r1 s1] show ?thesis
    by (auto simp: step_def isWrite_def split: sum.splits)
next
  case (WriteAll now tokens)
  obtain r1 s1 where w: "writeAll gen now tokens s = (r1, s1)" by (cases "writeAll gen now tokens s")
  from writeAll_cached_salt [OF assms(1,2) w] assms(3) WriteAll w show ?thesis
    by (auto simp: step_def isWrite_def split: sum.splits)
next
  case (MergeActiveTokens now active upd)
  obtain r1 s1 where rd: "readAll gen ttl now s = (r1, s1)" by (cases "readAll gen ttl now s")
  then have s1: "ts_salt s1 = Some v" using readAll_salt [OF rd] assms(1) by simp
  show ?thesis
  proof (cases r1)
    case (Inl x)
    with rd have "mergeActiveTokens gen ttl now active upd s = (Inl x, s1)"
      by (simp add: mergeActiveTokens_def)
    with assms(3) MergeActiveTokens s1 show ?thesis by (auto simp: step_def isWrite_def)
  next
    case (Inr allTokens)
    let ?m = "Some (case upd of Some t \<Rightarrow> applyUpdate (Some t) allTokens
                    | None \<Rightarrow> fold applyUpdate active allTokens)"
    obtain r2 s2 where w: "writeAll gen now ?m s1 = (r2, s2)" by (cases "writeAll gen now ?m s1")
    have m: "mergeActiveTokens gen ttl now active upd s = (r2, s2)"
      unfolding mergeActiveTokens_def rd Inr using w by simp
    from writeAll_cached_salt [OF s1 assms(2) w] assms(3) MergeActiveTokens m show ?thesis
      by (auto simp: step_def isWrite_def split: sum.splits)
  qed
qed

section \<open>Claims about the token store\<close>

text \<open>
  C3. The salt within one process. Provided \<^verbatim>\<open>generateSalt\<close> never returns the empty
  string: once a call of \<^verbatim>\<open>getSalt\<close> has returned a value, every later call of
  \<^verbatim>\<open>getSalt\<close> on the same store returns that value, and every \<^verbatim>\<open>writeAll\<close> or
  \<^verbatim>\<open>mergeActiveTokens\<close> that completes leaves a document that carries it, for every
  sequence of calls run one after the other and every schedule of file-system failures.
  The value is the salt stored on disk only if that first call could read it: after a
  failed read it is a freshly generated temporary salt.
\<close>

theorem salt_stable_within_process:
  assumes "\<forall>n. gen n \<noteq> []" and "fst (getSalt gen s0) = Inr v"
  shows "\<forall>(c, r, s') \<in> set (run gen ttl cs (snd (getSalt gen s0))).
           ts_salt s' = Some v \<and> (c = GetSalt \<longrightarrow> r = Salt v) \<and>
           (isWrite c \<and> r = Done \<longrightarrow>
              (\<exists>toks. ts_file s' = Some (DocObject (Some v) (TokensArray toks))))"
proof -
  obtain s1 where g: "getSalt gen s0 = (Inr v, s1)"
    using assms(2) by (cases "getSalt gen s0") auto
  from getSalt_sets [OF assms(1) g] have inv: "ts_salt s1 = Some v" "truthy v" by simp_all
  have "\<forall>(c, r, s') \<in> set (run gen ttl cs s).
           ts_salt s' = Some v \<and> (c = GetSalt \<longrightarrow> r = Salt v) \<and>
           (isWrite c \<and> r = Done \<longrightarrow>
              (\<exists>toks. ts_file s' = Some (DocObject (Some v) (TokensArray toks))))"
    if "ts_salt s = Some v" for s
    using that
  proof (induction cs arbitrary: s)
    case Nil
    then show ?case by simp
  next
    case (Cons c cs)
    obtain r s' where st: "step gen ttl c s = (r, s')" by (cases "step gen ttl c s")
    note k = step_keeps_salt [OF Cons.prems inv(2) st]
    from Cons.IH [of s'] k show ?case unfolding run.simps st by simp
  qed
  from this [OF inv(1)] show ?thesis unfolding g by simp
qed

theorem salt_stable_within_process_witness:
  "fst (getSalt (fixedSalt ''T'')
     (snd (writeAll (fixedSalt ''T'') 100 (Some [])
       (snd (getSalt (fixedSalt ''T'')
          \<lparr>ts_file = Some (DocObject (Some (JStr ''S'')) (TokensArray [])), ts_cache = None,
           ts_cacheTime = 0, ts_salt = None, ts_io = [False, True], ts_rng = 0\<rparr>)))))
     = Inr (JStr ''T'') \<and>
   (\<exists>toks. ts_file
     (snd (writeAll (fixedSalt ''T'') 100 (Some [])
       (snd (getSalt (fixedSalt ''T'')
          \<lparr>ts_file = Some (DocObject (Some (JStr ''S'')) (TokensArray [])), ts_cache = None,
           ts_cacheTime = 0, ts_salt = None, ts_io = [False, True], ts_rng = 0\<rparr>))))
     = Some (DocObject (Some (JStr ''T'')) (TokensArray toks)))"
proof -
  let ?G = "fixedSalt ''T''"
  let ?s0 = "\<lparr>ts_file = Some (DocObject (Some (JStr ''S'')) (TokensArray [])), ts_cache = None,
           ts_cacheTime = 0, ts_salt = None, ts_io = [False, True], ts_rng = 0\<rparr>"
  let ?s1 = "snd (getSalt ?G ?s0)"
  have g: "\<forall>n. ?G n \<noteq> []" by (simp add: fixedSalt_def)
  have f: "fst (getSalt ?G ?s0) = Inr (JStr ''T'')"
    by (simp add: store_defs)
  obtain s2 where w: "writeAll ?G 100 (Some []) ?s1 = (Inr (), s2)"
    by (simp add: store_defs Let_def)
  obtain r3 s3 where k: "getSalt ?G s2 = (r3, s3)" by (cases "getSalt ?G s2")
  have run: "run ?G 5000 [WriteAll 100 (Some []), GetSalt] ?s1 =
      [(WriteAll 100 (Some []), Done, s2),
       (GetSalt, (case r3 of Inl e \<Rightarrow> Threw e | Inr v \<Rightarrow> Salt v), s3)]"
    by (simp add: step_def w k split: sum.splits)
  note t = salt_stable_within_process [OF g f, of 5000 "[WriteAll 100 (Some []), GetSalt]",
      unfolded run]
  from t have "r3 = Inr (JStr ''T'')" by (cases r3) auto
  moreover from t have "\<exists>toks. ts_file s2 = Some (DocObject (Some (JStr ''T'')) (TokensArray toks))"
    by (simp add: isWrite_def)
  ultimately show ?thesis using w k by simp
qed

text \<open>
  The salt across processes. The document holds the salt \<^verbatim>\<open>S\<close> and a first process reads
  it. After a restart the read of \<^verbatim>\<open>getSalt\<close> fails, so the call returns the temporary
  salt \<^verbatim>\<open>T\<close>, and the next \<^verbatim>\<open>writeAll\<close> stores \<^verbatim>\<open>T\<close> in place of \<^verbatim>\<open>S\<close>.
\<close>

theorem salt_rotated_after_failed_read_counterexample:
  "fst (getSalt (fixedSalt ''T'')
     \<lparr>ts_file = Some (DocObject (Some (JStr ''S'')) (TokensArray [])), ts_cache = None,
      ts_cacheTime = 0, ts_salt = None, ts_io = [False, False, False, True], ts_rng = 0\<rparr>)
     = Inr (JStr ''S'') \<and>
   fst (getSalt (fixedSalt ''T'')
     (newProcess (snd (getSalt (fixedSalt ''T'')
        \<lparr>ts_file = Some (DocObject (Some (JStr ''S'')) (TokensArray [])), ts_cache = None,
         ts_cacheTime = 0, ts_salt = None, ts_io = [False, False, False, True], ts_rng = 0\<rparr>))))
     = Inr (JStr ''T'') \<and>
   ts_file (snd (writeAll (fixedSalt ''T'') 100 (Some [])
     (snd (getSalt (fixedSalt ''T'')
       (newProcess (snd (getSalt (fixedSalt ''T'')
          \<lparr>ts_file = Some (DocObject (Some (JStr ''S'')) (TokensArray [])), ts_cache = None,
           ts_cacheTime = 0, ts_salt = None, ts_io = [False, False, False, True],
           ts_rng = 0\<rparr>)))))))
     = Some (DocObject (Some (JStr ''T'')) (TokensArray []))"
  by (simp add: store_defs)




text \<open>
  C8. Error handling of \<^verbatim>\<open>readAll\<close> and \<^verbatim>\<open>writeAll\<close>. \<^verbatim>\<open>readAll\<close> rejects exactly when its
  cache is not valid and \<^verbatim>\<open>_ensureFileExists\<close> rejects (the file is inaccessible and cannot
  be created). Once \<^verbatim>\<open>_ensureFileExists\<close> has completed, a failing read, malformed JSON and
  a document of the wrong shape all give the empty sequence, and so does a missing file
  that could be created. \<^verbatim>\<open>writeAll\<close> rejects exactly when \<^verbatim>\<open>_ensureFileExists\<close> rejects, in
  its own call or in the call inside \<^verbatim>\<open>getSalt\<close>, or when its own write of the document
  fails; that failure is propagated to the caller. \<^verbatim>\<open>getSalt\<close> rejects only through
  \<^verbatim>\<open>_ensureFileExists\<close>: a failure of the write inside its \<^verbatim>\<open>try\<close> block is caught there.
\<close>

theorem readAll_writeAll_error_handling:
  "(fst (readAll gen ttl now s) = Inl e \<longleftrightarrow>
      \<not> isCacheValid ttl now s \<and> fst (ensureFileExists gen s) = Inl e) \<and>
   (\<not> isCacheValid ttl now s \<and> ensureFileExists gen s = (Inr (), s1) \<and>
    (case fst (fs_readFile s1) of Inl x \<Rightarrow> True | Inr d \<Rightarrow> wrongShape d) \<longrightarrow>
      fst (readAll gen ttl now s) = Inr []) \<and>
   (\<not> isCacheValid ttl now s \<and> ts_file s = None \<and> fst (ensureFileExists gen s) = Inr () \<longrightarrow>
      fst (readAll gen ttl now s) = Inr []) \<and>
   (fst (writeAll gen now tokens s) = Inl e \<longleftrightarrow>
      fst (ensureFileExists gen s) = Inl e \<or>
      (\<exists>s1. ensureFileExists gen s = (Inr (), s1) \<and>
         (falsySalt (ts_salt s1) \<and> fst (ensureFileExists gen s1) = Inl e \<or>
          (\<exists>v s2. getSalt gen s1 = (Inr v, s2) \<and>
             fst (fs_writeFile (DocObject (Some v)
                    (TokensArray (jsonRoundTrip (case tokens of Some ts \<Rightarrow> ts | None \<Rightarrow> []))))
                    s2) = Inl e)))) \<and>
   (fst (ensureFileExists gen s) = Inl e \<longrightarrow> fst (writeAll gen now tokens s) = Inl e) \<and>
   (ensureFileExists gen s = (Inr (), s1) \<and> getSalt gen s1 = (Inr v, s2) \<and>
    fst (fs_writeFile (DocObject (Some v)
           (TokensArray (jsonRoundTrip (case tokens of Some ts \<Rightarrow> ts | None \<Rightarrow> [])))) s2) = Inl e' \<longrightarrow>
      fst (writeAll gen now tokens s) = Inl e') \<and>
   (fst (getSalt gen s) = Inl e \<longleftrightarrow>
      falsySalt (ts_salt s) \<and> fst (ensureFileExists gen s) = Inl e)"
proof (intro conjI impI)
  show "fst (readAll gen ttl now s) = Inl e \<longleftrightarrow>
      \<not> isCacheValid ttl now s \<and> fst (ensureFileExists gen s) = Inl e"
    by (rule readAll_throws_iff)
next
  assume h: "\<not> isCacheValid ttl now s \<and> ensureFileExists gen s = (Inr (), s1) \<and>
    (case fst (fs_readFile s1) of Inl x \<Rightarrow> True | Inr d \<Rightarrow> wrongShape d)"
  then have "fst (readAll gen ttl now s) =
      (case fst (fs_readFile s1) of Inl x \<Rightarrow> Inr [] | Inr d \<Rightarrow> Inr (tokensOfDocument d))"
    using readAll_after_ensure by blast
  with h show "fst (readAll gen ttl now s) = Inr []"
    by (auto split: sum.splits simp: wrongShape_no_tokens)
next
  assume h: "\<not> isCacheValid ttl now s \<and> ts_file s = None \<and> fst (ensureFileExists gen s) = Inr ()"
  then obtain s1 where e: "ensureFileExists gen s = (Inr (), s1)"
    by (cases "ensureFileExists gen s") auto
  with h obtain salt where f: "ts_file s1 = Some (DocObject (Some salt) (TokensArray []))"
    using ensureFileExists_creates by blast
  have r: "fst (readAll gen ttl now s) =
      (case fst (fs_readFile s1) of Inl x \<Rightarrow> Inr [] | Inr d \<Rightarrow> Inr (tokensOfDocument d))"
    using readAll_after_ensure h e by blast
  show "fst (readAll gen ttl now s) = Inr []"
  proof (cases "fs_readFile s1")
    case (Pair r1 s2)
    show ?thesis
    proof (cases r1)
      case (Inl x)
      with r Pair show ?thesis by simp
    next
      case (Inr d)
      with Pair fs_readFile_result [of s1 d s2] f
      have "d = DocObject (Some salt) (TokensArray [])" by simp
      with r Pair Inr show ?thesis by (simp add: tokensOfDocument_def)
    qed
  qed
next
  show "fst (writeAll gen now tokens s) = Inl e \<longleftrightarrow>
      fst (ensureFileExists gen s) = Inl e \<or>
      (\<exists>s1. ensureFileExists gen s = (Inr (), s1) \<and>
         (falsySalt (ts_salt s1) \<and> fst (ensureFileExists gen s1) = Inl e \<or>
          (\<exists>v s2. getSalt gen s1 = (Inr v, s2) \<and>
             fst (fs_writeFile (DocObject (Some v)
                    (TokensArray (jsonRoundTrip (case tokens of Some ts \<Rightarrow> ts | None \<Rightarrow> []))))
                    s2) = Inl e)))"
    unfolding writeAll_throws_iff getSalt_throws_iff ..
next
  assume "fst (ensureFileExists gen s) = Inl e"
  then show "fst (writeAll gen now tokens s) = Inl e"
    unfolding writeAll_throws_iff by blast
next
  assume "ensureFileExists gen s = (Inr (), s1) \<and> getSalt gen s1 = (Inr v, s2) \<and>
    fst (fs_writeFile (DocObject (Some v)
           (TokensArray (jsonRoundTrip (case tokens of Some ts \<Rightarrow> ts | None \<Rightarrow> [])))) s2) = Inl e'"
  then show "fst (writeAll gen now tokens s) = Inl e'"
    unfolding writeAll_throws_iff by blast
next
  show "fst (getSalt gen s) = Inl e \<longleftrightarrow>
      falsySalt (ts_salt s) \<and> fst (ensureFileExists gen s) = Inl e"
    by (rule getSalt_throws_iff)
qed

theorem readAll_writeAll_error_handling_witness:
  "fst (readAll (fixedSalt ''T'') 5000 100
     \<lparr>ts_file = Some Garbage, ts_cache = None, ts_cacheTime = 0, ts_salt = None,
      ts_io = [], ts_rng = 0\<rparr>) = Inr [] \<and>
   fst (readAll (fixedSalt ''T'') 5000 100
     \<lparr>ts_file = None, ts_cache = None, ts_cacheTime = 0, ts_salt = None,
      ts_io = [], ts_rng = 0\<rparr>) = Inr [] \<and>
   fst (writeAll (fixedSalt ''T'') 100 (Some [])
     \<lparr>ts_file = None, ts_cache = None, ts_cacheTime = 0, ts_salt = None,
      ts_io = [False, True], ts_rng = 0\<rparr>) = Inl IOError \<and>
   fst (writeAll (fixedSalt ''T'') 100 (Some [])
     \<lparr>ts_file = Some (DocObject (Some (JStr ''S'')) (TokensArray [])), ts_cache = None,
      ts_cacheTime = 0, ts_salt = None, ts_io = [False, False, False, True], ts_rng = 0\<rparr>)
     = Inl IOError"
proof -
  let ?g = "fixedSalt ''T''"
  let ?s = "\<lparr>ts_file = Some Garbage, ts_cache = None, ts_cacheTime = 0, ts_salt = None,
      ts_io = [], ts_rng = 0\<rparr>"
  let ?n = "\<lparr>ts_file = None, ts_cache = None, ts_cacheTime = 0, ts_salt = None,
      ts_io = [], ts_rng = 0\<rparr>"
  let ?u = "\<lparr>ts_file = None, ts_cache = None, ts_cacheTime = 0, ts_salt = None,
      ts_io = [False, True], ts_rng = 0\<rparr>"
  let ?w = "\<lparr>ts_file = Some (DocObject (Some (JStr ''S'')) (TokensArray [])), ts_cache = None,
      ts_cacheTime = 0, ts_salt = None, ts_io = [False, False, False, True], ts_rng = 0\<rparr>"
  have a: "\<not> isCacheValid 5000 100 ?s \<and> ensureFileExists ?g ?s = (Inr (), ?s) \<and>
      (case fst (fs_readFile ?s) of Inl x \<Rightarrow> True | Inr d \<Rightarrow> wrongShape d)"
    by (simp add: store_defs wrongShape_def)
  have b: "\<not> isCacheValid 5000 100 ?n \<and> ts_file ?n = None \<and> fst (ensureFileExists ?g ?n) = Inr ()"
    by (simp add: store_defs)
  have u: "fst (ensureFileExists ?g ?u) = Inl IOError"
    by (simp add: store_defs)
  have c: "ensureFileExists ?g ?w = (Inr (), ?w\<lparr>ts_io := [False, False, True]\<rparr>) \<and>
      getSalt ?g (?w\<lparr>ts_io := [False, False, True]\<rparr>) =
        (Inr (JStr ''S''), ?w\<lparr>ts_io := [True], ts_salt := Some (JStr ''S'')\<rparr>) \<and>
      fst (fs_writeFile (DocObject (Some (JStr ''S''))
             (TokensArray (jsonRoundTrip (case Some [] of Some ts \<Rightarrow> ts | None \<Rightarrow> []))))
             (?w\<lparr>ts_io := [True], ts_salt := Some (JStr ''S'')\<rparr>)) = Inl IOError"
    by (simp add: store_defs)
  note t1 = readAll_writeAll_error_handling [where gen = ?g and ttl = 5000 and now = 100
      and s = ?s and ?s1.0 = ?s, THEN conjunct2, THEN conjunct1, THEN mp, OF a]
  note t2 = readAll_writeAll_error_handling [where gen = ?g and ttl = 5000 and now = 100
      and s = ?n, THEN conjunct2, THEN conjunct2, THEN conjunct1, THEN mp, OF b]
  note t3 = readAll_writeAll_error_handling [where gen = ?g and now = 100 and s = ?u
      and e = IOError and tokens = "Some []",
      THEN conjunct2, THEN conjunct2, THEN conjunct2, THEN conjunct2, THEN conjunct1,
      THEN mp, OF u]
  note t4 = readAll_writeAll_error_handling [where gen = ?g and now = 100 and s = ?w
      and ?s1.0 = "?w\<lparr>ts_io := [False, False, True]\<rparr>" and v = "JStr ''S''"
      and ?s2.0 = "?w\<lparr>ts_io := [True], ts_salt := Some (JStr ''S'')\<rparr>"
      and tokens = "Some []" and e' = IOError,
      THEN conjunct2, THEN conjunct2, THEN conjunct2, THEN conjunct2, THEN conjunct2,
      THEN conjunct1, THEN mp, OF c]
  show ?thesis by (intro conjI) (rule t1, rule t2, rule t3, rule t4)
qed

text \<open>
  A missing file that cannot be created: the access fails, the write in its handler
  fails, and \<^verbatim>\<open>readAll\<close> rejects. A legacy document whose migration write inside
  \<^verbatim>\<open>getSalt\<close> fails: the body of the \<^verbatim>\<open>try\<close> block throws, and \<^verbatim>\<open>writeAll\<close> completes all the
  same.
\<close>

theorem error_handling_counterexample:
  "fst (readAll (fixedSalt ''T'') 5000 100
     \<lparr>ts_file = None, ts_cache = None, ts_cacheTime = 0, ts_salt = None,
      ts_io = [False, True], ts_rng = 0\<rparr>) = Inl IOError \<and>
   fst (getSalt_try (fixedSalt ''T'')
     \<lparr>ts_file = Some (DocArray []), ts_cache = None, ts_cacheTime = 0, ts_salt = None,
      ts_io = [False, True], ts_rng = 0\<rparr>) = Inl IOError \<and>
   fst (writeAll (fixedSalt ''T'') 100 (Some [])
     \<lparr>ts_file = Some (DocArray []), ts_cache = None, ts_cacheTime = 0, ts_salt = None,
      ts_io = [False, False, False, True], ts_rng = 0\<rparr>) = Inr ()"
  by (simp add: store_defs Let_def)




end
